theory Spec2Isabelle
  imports Complex_Main "HOL-Library.AList"
begin

section \<open>JavaScript values used by the command\<close>

text \<open>
  An id in the command is a JavaScript \<^verbatim>\<open>string | undefined\<close>: a dictionary read
  \<^verbatim>\<open>this.nodeIdsMap[k]\<close> yields \<^verbatim>\<open>undefined\<close> for a missing key. It is modelled as
  \<open>string option\<close>, \<open>None\<close> being \<^verbatim>\<open>undefined\<close>.
\<close>

text \<open>
  Modelled from the spec: \<^verbatim>\<open>TDisplayType\<close> of the settings service, the display tag
  \<^verbatim>\<open>'horizontal' | 'vertical'\<close>.
\<close>

datatype TDisplayType = horizontal | vertical

text \<open>
  What a call can raise: \<open>TypeError\<close> for a property read on \<^verbatim>\<open>undefined\<close> (a scene
  or a node that did not resolve), \<open>MissingEntity\<close> for the missing-entity error of a
  collaborator. Nothing in the command catches either.
\<close>

datatype error = TypeError | MissingEntity

text \<open>Truthiness of a \<^verbatim>\<open>string | undefined\<close>: \<^verbatim>\<open>undefined\<close> and the empty string are falsy.\<close>

definition truthy :: "string option \<Rightarrow> bool" where
  "truthy v = (case v of None \<Rightarrow> False | Some s \<Rightarrow> s \<noteq> [])"

text \<open>lodash \<^verbatim>\<open>compact\<close>: drops the falsy elements of an array.\<close>

fun compactIds :: "string option list \<Rightarrow> string list" where
  "compactIds [] = []"
| "compactIds (None # xs) = compactIds xs"
| "compactIds (Some s # xs) = (if s = [] then compactIds xs else s # compactIds xs)"

text \<open>A property key: \<^verbatim>\<open>obj[undefined]\<close> reads the property named \<^verbatim>\<open>"undefined"\<close>.\<close>

definition propKey :: "string option \<Rightarrow> string" where
  "propKey k = (case k of None \<Rightarrow> ''undefined'' | Some s \<Rightarrow> s)"

section \<open>Data model\<close>

text \<open>
  Modelled from the spec: a scene node (\<^verbatim>\<open>TSceneNode\<close>), an item or a folder, with the
  members the command reads and writes. \<open>folder\<close> is \<^verbatim>\<open>isFolder()\<close>; \<open>sourceId\<close> is read for items only;
  \<open>position\<close> and \<open>visible\<close> stand for the settings returned by \<^verbatim>\<open>getSettings()\<close>;
  \<open>node_output\<close> and \<open>node_display\<close> are the context and display written by
  \<^verbatim>\<open>setSettings\<close> and \<^verbatim>\<open>setDisplay\<close>.
\<close>

record node =
  node_id :: string
  name :: string
  folder :: bool
  sourceId :: string
  parentId :: "string option"
  position :: "real \<times> real"
  visible :: bool
  node_output :: "nat option"
  node_display :: "TDisplayType option"

text \<open>
  Modelled from the spec: the Scene of the Scene Graph service, which is not among the
  sources. A scene holds its nodes, resolved by id, and "a flat, globally ordered node-id
  sequence", which is the authoritative order.
\<close>

record scene =
  nodes :: "string \<rightharpoonup> node"
  nodesIds :: "string list"

text \<open>
  Modelled from the spec: a source, which "may be explicitly marked non-duplicable".
\<close>

record source =
  doNotDuplicate :: bool

text \<open>
  Modelled from the spec: the state of the collaborating services, none of which is among
  the sources. \<open>sceneNodeMaps\<close> is the per-scene node map; an entry keeps both ids as
  \<^verbatim>\<open>createNodeMapEntry\<close> received them. \<open>nodeDisplays\<close> is the display the Dual-Output
  service attributes to a node of a scene, \<open>activeDisplay\<close> "the single active display",
  \<open>contexts\<close> the per-display render context of the Video-Settings service. \<open>uuid\<close>
  and \<open>uuidCount\<close> are the supply of ids for nodes and sources created without an id hint.
\<close>

record world =
  scenes :: "string \<rightharpoonup> scene"
  sceneNodeMaps :: "string \<Rightarrow> (string option \<times> string option) list"
  sources :: "string \<rightharpoonup> source"
  dualOutputMode :: bool
  activeDisplay :: TDisplayType
  nodeDisplays :: "string \<Rightarrow> string \<Rightarrow> TDisplayType"
  contexts :: "TDisplayType \<Rightarrow> nat"
  uuid :: "nat \<Rightarrow> string"
  uuidCount :: nat

text \<open>
  Modelled from the spec: the Selection, "an immutable, frozen list of node references plus
  the originating scene id".
\<close>

record selection =
  sceneId :: string
  sel_nodes :: "node list"

text \<open>
  The fields of \<^verbatim>\<open>CopyNodesCommand\<close> (lines 28-49). A \<^verbatim>\<open>Dictionary<string>\<close> is an
  association list in the order the keys were first written; \<open>sourceIdsMap\<close> is
  \<^verbatim>\<open>undefined\<close> until a run that duplicates the sources.
\<close>

record command =
  selection :: selection
  destSceneId :: string
  duplicateSources :: bool
  display :: "TDisplayType option"
  sourceIdsMap :: "(string \<times> string) list option"
  nodeIdsMap :: "(string \<times> string) list"
  hasNodeMap :: bool

section \<open>Collaborators\<close>

subsection \<open>Dual-Output and Scene-Collections services\<close>

text \<open>
  Modelled from the spec: \<^verbatim>\<open>dualOutputService.views.hasNodeMap\<close>. "Presence of any entry
  for a scene means that scene has a node map."
\<close>

definition views_hasNodeMap :: "world \<Rightarrow> string \<Rightarrow> bool" where
  "views_hasNodeMap w sid = (sceneNodeMaps w sid \<noteq> [])"

text \<open>
  Modelled from the spec: \<^verbatim>\<open>getNodeDisplay(nodeId, sceneId)\<close>, the display the service
  attributes to the node. The attribution is a table of the state; the command reads it
  and never writes it.
\<close>

definition getNodeDisplay :: "world \<Rightarrow> string \<Rightarrow> string \<Rightarrow> TDisplayType" where
  "getNodeDisplay w nodeId sid = nodeDisplays w nodeId sid"

text \<open>
  Modelled from the spec: \<^verbatim>\<open>getVerticalNodeId(nodeId, sceneId)\<close>, which looks up the "paired
  vertical node id in the source scene's node map".
\<close>

definition getVerticalNodeId :: "world \<Rightarrow> string \<Rightarrow> string \<Rightarrow> string option" where
  "getVerticalNodeId w nodeId sid =
     (case map_of (sceneNodeMaps w sid) (Some nodeId) of None \<Rightarrow> None | Some v \<Rightarrow> v)"

text \<open>
  Modelled from the spec: \<^verbatim>\<open>createNodeMapEntry(sceneId, horizontalId, verticalId)\<close> records
  the entry in the node map of the scene, replacing the entry of the same horizontal id.
\<close>

definition createNodeMapEntry ::
  "world \<Rightarrow> string \<Rightarrow> string option \<Rightarrow> string option \<Rightarrow> world" where
  "createNodeMapEntry w sid h v =
     w\<lparr>sceneNodeMaps := (sceneNodeMaps w)(sid := AList.update h v (sceneNodeMaps w sid))\<rparr>"

text \<open>Modelled from the spec: \<^verbatim>\<open>removeNodeMap(sceneId)\<close> removes the entire node map.\<close>

definition removeNodeMap :: "world \<Rightarrow> string \<Rightarrow> world" where
  "removeNodeMap w sid = w\<lparr>sceneNodeMaps := (sceneNodeMaps w)(sid := [])\<rparr>"

subsection \<open>Scene Graph service\<close>

text \<open>
  Modelled from the spec: the operations of a scene. The command holds the handle
  \<^verbatim>\<open>scene\<close> it resolved at the start; nothing in it removes a scene, so an update of a
  scene that does not exist is not reached and leaves the state as it is.
\<close>

definition updateScene :: "world \<Rightarrow> string \<Rightarrow> (scene \<Rightarrow> scene) \<Rightarrow> world" where
  "updateScene w sid f =
     (case scenes w sid of None \<Rightarrow> w | Some sc \<Rightarrow> w\<lparr>scenes := (scenes w)(sid \<mapsto> f sc)\<rparr>)"

text \<open>
  Modelled from the spec: a change of a node of a scene, reached through the handle
  \<^verbatim>\<open>getNode\<close>, \<^verbatim>\<open>createFolder\<close> or \<^verbatim>\<open>addSource\<close> returned; a node the scene does not
  hold is left alone.
\<close>

definition updateNode :: "world \<Rightarrow> string \<Rightarrow> string \<Rightarrow> (node \<Rightarrow> node) \<Rightarrow> world" where
  "updateNode w sid i f =
     updateScene w sid (\<lambda>sc. case nodes sc i of None \<Rightarrow> sc
                               | Some n \<Rightarrow> sc\<lparr>nodes := (nodes sc)(i \<mapsto> f n)\<rparr>)"

text \<open>Modelled from the spec: \<^verbatim>\<open>getNode(id)\<close>; no node has the id \<^verbatim>\<open>undefined\<close>.\<close>

definition getNode :: "world \<Rightarrow> string \<Rightarrow> string option \<Rightarrow> node option" where
  "getNode w sid i =
     (case scenes w sid of None \<Rightarrow> None
      | Some sc \<Rightarrow> (case i of None \<Rightarrow> None | Some k \<Rightarrow> nodes sc k))"

text \<open>
  Modelled from the spec: the id of a created node or source is the hint \<^verbatim>\<open>{id?}\<close> when
  one is given, and the next id of the supply otherwise.
\<close>

definition newId :: "world \<Rightarrow> string option \<Rightarrow> string \<times> world" where
  "newId w hint =
     (case hint of Some h \<Rightarrow> (h, w)
      | None \<Rightarrow> (uuid w (uuidCount w), w\<lparr>uuidCount := Suc (uuidCount w)\<rparr>))"

text \<open>
  Modelled from the spec: a created node has no parent. The spec does not say where a
  created node enters the order (the command rewrites the order at its end); here it is
  put first.
\<close>

definition insertNode :: "world \<Rightarrow> string \<Rightarrow> node \<Rightarrow> world" where
  "insertNode w sid n =
     updateScene w sid (\<lambda>sc. sc\<lparr>nodes := (nodes sc)(node_id n \<mapsto> n),
                                 nodesIds := node_id n # nodesIds sc\<rparr>)"

text \<open>Modelled from the spec: \<^verbatim>\<open>createFolder(name, {id?})\<close>.\<close>

definition createFolder :: "world \<Rightarrow> string \<Rightarrow> string \<Rightarrow> string option \<Rightarrow> string \<times> world" where
  "createFolder w sid nm hint =
     (let (i, w1) = newId w hint
      in (i, insertNode w1 sid
               \<lparr>node_id = i, name = nm, folder = True, sourceId = [], parentId = None,
                position = (0, 0), visible = True, node_output = None, node_display = None\<rparr>))"

text \<open>
  Modelled from the spec: \<^verbatim>\<open>addSource(sourceId, {id?})\<close> creates an item bound to the
  source; an unresolvable source id is a missing-entity error.
\<close>

definition addSource ::
  "world \<Rightarrow> string \<Rightarrow> string option \<Rightarrow> string option \<Rightarrow> error + (string \<times> world)" where
  "addSource w sid src hint =
     (case src of None \<Rightarrow> Inl MissingEntity
      | Some s \<Rightarrow>
         (case sources w s of None \<Rightarrow> Inl MissingEntity
          | Some _ \<Rightarrow>
             (let (i, w1) = newId w hint
              in Inr (i, insertNode w1 sid
                      \<lparr>node_id = i, name = [], folder = False, sourceId = s, parentId = None,
                       position = (0, 0), visible = True, node_output = None,
                       node_display = None\<rparr>))))"

text \<open>Modelled from the spec: \<^verbatim>\<open>setDisplay(tag)\<close> of a node.\<close>

definition setDisplay :: "world \<Rightarrow> string \<Rightarrow> string \<Rightarrow> TDisplayType \<Rightarrow> world" where
  "setDisplay w sid i d = updateNode w sid i (\<lambda>n. n\<lparr>node_display := Some d\<rparr>)"

text \<open>
  Modelled from the spec: \<^verbatim>\<open>setSettings(patch)\<close> of an item, for the patch
  \<^verbatim>\<open>{ ...node.getSettings(), output: context, display }\<close>: the settings of the original
  \<open>orig\<close>, with the context and the display replaced.
\<close>

definition setSettings ::
  "world \<Rightarrow> string \<Rightarrow> string \<Rightarrow> node \<Rightarrow> nat \<Rightarrow> TDisplayType \<Rightarrow> world" where
  "setSettings w sid i orig ctx d =
     updateNode w sid i (\<lambda>n. n\<lparr>position := position orig, visible := visible orig,
                                node_output := Some ctx, node_display := Some d\<rparr>)"

text \<open>Modelled from the spec: \<^verbatim>\<open>setTransform({ position })\<close> of an item.\<close>

definition setTransform :: "world \<Rightarrow> string \<Rightarrow> string \<Rightarrow> real \<times> real \<Rightarrow> world" where
  "setTransform w sid i p = updateNode w sid i (\<lambda>n. n\<lparr>position := p\<rparr>)"

text \<open>Modelled from the spec: \<^verbatim>\<open>setParent(id)\<close> attaches the node under the parent.\<close>

definition setParent :: "world \<Rightarrow> string \<Rightarrow> string \<Rightarrow> string \<Rightarrow> world" where
  "setParent w sid i p = updateNode w sid i (\<lambda>n. n\<lparr>parentId := Some p\<rparr>)"

text \<open>Modelled from the spec: \<^verbatim>\<open>getNodesIds()\<close>, the node order of the scene.\<close>

definition getNodesIds :: "scene \<Rightarrow> string list" where
  "getNodesIds sc = nodesIds sc"

text \<open>
  Modelled from the spec: \<^verbatim>\<open>setNodesOrder(ids)\<close> applies the order "in a single write".
\<close>

definition setNodesOrder :: "world \<Rightarrow> string \<Rightarrow> string list \<Rightarrow> world" where
  "setNodesOrder w sid ids = updateScene w sid (\<lambda>sc. sc\<lparr>nodesIds := ids\<rparr>)"

text \<open>
  Modelled from the spec: \<^verbatim>\<open>remove()\<close> of a node takes the node out of the scene and out
  of its order. Reclaiming a source that is left without items is the contract of the
  Source service and is not part of this model.
\<close>

definition removeNode :: "world \<Rightarrow> string \<Rightarrow> string \<Rightarrow> world" where
  "removeNode w sid i =
     updateScene w sid (\<lambda>sc. sc\<lparr>nodes := (nodes sc)(i := None),
                                 nodesIds := filter (\<lambda>k. k \<noteq> i) (nodesIds sc)\<rparr>)"

subsection \<open>Source service and Selection\<close>

text \<open>
  Modelled from the spec: \<^verbatim>\<open>duplicate(existingIdHint?)\<close>. A source marked non-duplicable
  yields no duplicate; an unresolvable source is a missing-entity error.
\<close>

definition duplicate ::
  "world \<Rightarrow> string \<Rightarrow> string option \<Rightarrow> error + (string option \<times> world)" where
  "duplicate w s hint =
     (case sources w s of None \<Rightarrow> Inl MissingEntity
      | Some src \<Rightarrow>
         if doNotDuplicate src then Inr (None, w)
         else (let (i, w1) = newId w hint
               in Inr (Some i, w1\<lparr>sources := (sources w1)(i \<mapsto> src)\<rparr>)))"

text \<open>Modelled from the spec: \<^verbatim>\<open>selection.getNodes()\<close>, every node of the selection.\<close>

definition getNodes :: "selection \<Rightarrow> node list" where
  "getNodes sel = sel_nodes sel"

text \<open>
  Modelled from the spec: \<^verbatim>\<open>selection.getNodes(isDualOutputMode)\<close>. "If dual-output
  editing is active, copy all selected nodes regardless of display; otherwise copy only
  nodes belonging to the single active display."
\<close>

definition getNodesFor :: "world \<Rightarrow> selection \<Rightarrow> bool \<Rightarrow> node list" where
  "getNodesFor w sel dual =
     (if dual then sel_nodes sel
      else filter (\<lambda>n. getNodeDisplay w (node_id n) (sceneId sel) = activeDisplay w)
             (sel_nodes sel))"

text \<open>
  Modelled from the spec: \<^verbatim>\<open>selection.getSources()\<close>, "every distinct source referenced by
  the selection", in the order of first reference.
\<close>

definition getSources :: "selection \<Rightarrow> string list" where
  "getSources sel = rev (remdups (rev (map sourceId (filter (\<lambda>n. \<not> folder n) (sel_nodes sel)))))"

section \<open>The command\<close>

text \<open>The constructor (lines 44-55): the tables start empty.\<close>

definition CopyNodesCommand ::
  "world \<Rightarrow> selection \<Rightarrow> string \<Rightarrow> bool \<Rightarrow> TDisplayType option \<Rightarrow> command" where
  "CopyNodesCommand w sel dest dup disp =
     \<lparr>selection = sel, destSceneId = dest, duplicateSources = dup, display = disp,
      sourceIdsMap = None, nodeIdsMap = [], hasNodeMap = views_hasNodeMap w (sceneId sel)\<rparr>"

subsection \<open>Duplicating the sources (lines 66-76)\<close>

fun duplicateAll ::
  "(string \<times> string) list \<Rightarrow> world \<Rightarrow> string list \<Rightarrow> error + ((string \<times> string) list \<times> world)" where
  "duplicateAll m w [] = Inr (m, w)"
| "duplicateAll m w (s # ss) =
     (case duplicate w s (map_of m s) of
        Inl e \<Rightarrow> Inl e
      | Inr (dup, w1) \<Rightarrow>
          duplicateAll (AList.update s (case dup of Some d \<Rightarrow> d | None \<Rightarrow> s) m) w1 ss)"

definition duplicatePass :: "command \<Rightarrow> world \<Rightarrow> error + (command \<times> world)" where
  "duplicatePass c w =
     (if duplicateSources c then
        (case duplicateAll [] w (getSources (selection c)) of
           Inl e \<Rightarrow> Inl e
         | Inr (m, w1) \<Rightarrow> Inr (c\<lparr>sourceIdsMap := Some m\<rparr>, w1))
      else Inr (c, w))"

subsection \<open>Creating the nodes (lines 78-173)\<close>

text \<open>\<^verbatim>\<open>this.display ?? getNodeDisplay(node.id, this.selection.sceneId)\<close>\<close>

definition resolveDisplay :: "command \<Rightarrow> world \<Rightarrow> node \<Rightarrow> TDisplayType" where
  "resolveDisplay c w n =
     (case display c of Some d \<Rightarrow> d
      | None \<Rightarrow> getNodeDisplay w (node_id n) (sceneId (selection c)))"

text \<open>
  The two loops of the source (lines 84-133 for a migration, lines 142-172 otherwise)
  differ in the blocks guarded by \<^verbatim>\<open>this.display === 'vertical'\<close>, which only the
  migration has; \<open>mig\<close> tells the loops apart. The result carries the id of the created
  node, which is what \<^verbatim>\<open>insertedNodes\<close> collects.
\<close>

definition copyFolder :: "bool \<Rightarrow> command \<Rightarrow> world \<Rightarrow> node \<Rightarrow> command \<times> world \<times> string" where
  "copyFolder mig c w n =
     (let (fid, w1) = createFolder w (destSceneId c) (name n) (map_of (nodeIdsMap c) (node_id n));
          w2 = setDisplay w1 (destSceneId c) fid (resolveDisplay c w1 n);
          w3 = (if mig \<and> display c = Some vertical
                then createNodeMapEntry w2 (destSceneId c) (Some (node_id n)) (Some fid)
                else w2)
      in (c\<lparr>nodeIdsMap := AList.update (node_id n) fid (nodeIdsMap c)\<rparr>, w3, fid))"

text \<open>
  \<^verbatim>\<open>this.sourceIdsMap != null ? this.sourceIdsMap[node.sourceId] : node.sourceId\<close>
\<close>

definition resolveSource :: "command \<Rightarrow> node \<Rightarrow> string option" where
  "resolveSource c n =
     (case sourceIdsMap c of Some m \<Rightarrow> map_of m (sourceId n) | None \<Rightarrow> Some (sourceId n))"

definition copyItem ::
  "bool \<Rightarrow> command \<Rightarrow> world \<Rightarrow> node \<Rightarrow> error + (command \<times> world \<times> string)" where
  "copyItem mig c w n =
     (let src = resolveSource c n
      in case addSource w (destSceneId c) src (map_of (nodeIdsMap c) (node_id n)) of
           Inl e \<Rightarrow> Inl e
         | Inr (iid, w1) \<Rightarrow>
            (let d = resolveDisplay c w1 n;
                 w2 = setSettings w1 (destSceneId c) iid n (contexts w1 d) d;
                 w3 = (if mig \<and> display c = Some vertical
                       then createNodeMapEntry
                              (setTransform w2 (destSceneId c) iid (0, 0))
                              (destSceneId c) (Some (node_id n)) (Some iid)
                       else w2)
             in Inr (c\<lparr>nodeIdsMap := AList.update (node_id n) iid (nodeIdsMap c)\<rparr>, w3, iid)))"

definition copyNode ::
  "bool \<Rightarrow> command \<Rightarrow> world \<Rightarrow> node \<Rightarrow> error + (command \<times> world \<times> string)" where
  "copyNode mig c w n = (if folder n then Inr (copyFolder mig c w n) else copyItem mig c w n)"

fun copyNodes ::
  "bool \<Rightarrow> command \<Rightarrow> world \<Rightarrow> string list \<Rightarrow> node list
     \<Rightarrow> error + (command \<times> world \<times> string list)" where
  "copyNodes mig c w ins [] = Inr (c, w, ins)"
| "copyNodes mig c w ins (n # ns) =
     (case copyNode mig c w n of
        Inl e \<Rightarrow> Inl e
      | Inr (c1, w1, i) \<Rightarrow> copyNodes mig c1 w1 (ins @ [i]) ns)"

definition isMigration :: "command \<Rightarrow> world \<Rightarrow> bool" where
  "isMigration c w = (dualOutputMode w \<and> \<not> hasNodeMap c)"

text \<open>The nodes the creation pass visits.\<close>

definition copied :: "command \<Rightarrow> world \<Rightarrow> node list" where
  "copied c w =
     (if isMigration c w then getNodes (selection c)
      else getNodesFor w (selection c) (dualOutputMode w))"

definition createPass ::
  "command \<Rightarrow> world \<Rightarrow> error + (command \<times> world \<times> string list)" where
  "createPass c w =
     (if isMigration c w then
        (case copyNodes True c w [] (getNodes (selection c)) of
           Inl e \<Rightarrow> Inl e
         | Inr (c1, w1, ins) \<Rightarrow> Inr (c1\<lparr>hasNodeMap := True\<rparr>, w1, ins))
      else copyNodes False c w [] (getNodesFor w (selection c) (dualOutputMode w)))"

subsection \<open>Recreating the parent/child relationships (lines 175-185)\<close>

definition relinkNode :: "command \<Rightarrow> world \<Rightarrow> node \<Rightarrow> error + world" where
  "relinkNode c w n =
     (let mappedId = map_of (nodeIdsMap c) (node_id n);
          mappedNode = getNode w (destSceneId c) mappedId;
          parentKey = map_of (nodeIdsMap c) (propKey (parentId n));
          mappedParent = (if truthy parentKey then getNode w (destSceneId c) parentKey
                          else None)
      in case mappedParent of
           None \<Rightarrow> Inr w
         | Some p \<Rightarrow>
            (case mappedNode of
               None \<Rightarrow> Inl TypeError
             | Some m \<Rightarrow> Inr (setParent w (destSceneId c) (node_id m) (node_id p))))"

fun relinkNodes :: "command \<Rightarrow> world \<Rightarrow> node list \<Rightarrow> error + world" where
  "relinkNodes c w [] = Inr w"
| "relinkNodes c w (n # ns) =
     (case relinkNode c w n of Inl e \<Rightarrow> Inl e | Inr w1 \<Rightarrow> relinkNodes c w1 ns)"

subsection \<open>Recreating the node order (lines 187-226)\<close>

text \<open>One step of the \<^verbatim>\<open>map\<close> callback of lines 195-215.\<close>

definition nodeMapStep :: "command \<Rightarrow> world \<Rightarrow> string \<Rightarrow> world" where
  "nodeMapStep c w origNodeId =
     (if getNodeDisplay w origNodeId (sceneId (selection c)) = horizontal then
        (let origVerticalNodeId = getVerticalNodeId w origNodeId (sceneId (selection c));
             newHorizontalNodeId = map_of (nodeIdsMap c) origNodeId;
             newVerticalNodeId = map_of (nodeIdsMap c) (propKey origVerticalNodeId)
         in createNodeMapEntry w (destSceneId c) newHorizontalNodeId newVerticalNodeId)
      else w)"

fun nodeMapSteps :: "command \<Rightarrow> world \<Rightarrow> string list \<Rightarrow> world" where
  "nodeMapSteps c w [] = w"
| "nodeMapSteps c w (i # is) = nodeMapSteps c (nodeMapStep c w i) is"

definition reorderPass :: "command \<Rightarrow> world \<Rightarrow> string list \<Rightarrow> error + world" where
  "reorderPass c w initialNodeOrder =
     (case scenes w (sceneId (selection c)) of
        None \<Rightarrow> Inl TypeError
      | Some src \<Rightarrow>
         (let ids = getNodesIds src;
              w1 = (if hasNodeMap c then nodeMapSteps c w ids else w);
              ord = compactIds (map (map_of (nodeIdsMap c)) ids)
          in Inr (setNodesOrder w1 (destSceneId c) (ord @ initialNodeOrder))))"

subsection \<open>execute() and rollback()\<close>

definition execute :: "command \<Rightarrow> world \<Rightarrow> error + (command \<times> world \<times> string list)" where
  "execute c w =
     (case scenes w (destSceneId c) of
        None \<Rightarrow> Inl TypeError
      | Some sc \<Rightarrow>
         (let initialNodeOrder = getNodesIds sc
          in case duplicatePass c w of
               Inl e \<Rightarrow> Inl e
             | Inr (c1, w1) \<Rightarrow>
                (case createPass c1 w1 of
                   Inl e \<Rightarrow> Inl e
                 | Inr (c2, w2, insertedNodes) \<Rightarrow>
                    (case relinkNodes c2 w2 (getNodes (selection c2)) of
                       Inl e \<Rightarrow> Inl e
                     | Inr w3 \<Rightarrow>
                        (case reorderPass c2 w3 initialNodeOrder of
                           Inl e \<Rightarrow> Inl e
                         | Inr w4 \<Rightarrow> Inr (c2, w4, insertedNodes))))))"

fun removeNodes :: "world \<Rightarrow> string \<Rightarrow> string list \<Rightarrow> world" where
  "removeNodes w sid [] = w"
| "removeNodes w sid (i # is) =
     removeNodes
       (case getNode w sid (Some i) of None \<Rightarrow> w | Some n \<Rightarrow> removeNode w sid (node_id n))
       sid is"

definition rollback :: "command \<Rightarrow> world \<Rightarrow> error + world" where
  "rollback c w =
     (case scenes w (destSceneId c) of
        None \<Rightarrow> Inl TypeError
      | Some sc \<Rightarrow>
         (let w1 = removeNodes w (destSceneId c) (map snd (nodeIdsMap c))
          in Inr (if views_hasNodeMap w1 (destSceneId c)
                  then removeNodeMap w1 (destSceneId c) else w1)))"

section \<open>Auxiliary notions for the proofs\<close>

text \<open>A scene stores every node under the node's own id.\<close>

definition wfScene :: "scene \<Rightarrow> bool" where
  "wfScene sc = (\<forall>k n. nodes sc k = Some n \<longrightarrow> node_id n = k)"

text \<open>The id a creation call returns for the copy of \<open>n\<close>: the hint, or the next uuid.\<close>

definition allocId :: "command \<Rightarrow> world \<Rightarrow> node \<Rightarrow> string" where
  "allocId c w n =
     (case map_of (nodeIdsMap c) (node_id n) of Some h \<Rightarrow> h | None \<Rightarrow> uuid w (uuidCount w))"

text \<open>The node the creation pass leaves in the destination for the original \<open>n\<close>.\<close>

definition newNode :: "bool \<Rightarrow> command \<Rightarrow> world \<Rightarrow> node \<Rightarrow> string \<Rightarrow> node" where
  "newNode mig c w n i =
     (if folder n then
        \<lparr>node_id = i, name = name n, folder = True, sourceId = [], parentId = None,
         position = (0, 0), visible = True, node_output = None,
         node_display = Some (resolveDisplay c w n)\<rparr>
      else
        \<lparr>node_id = i, name = [], folder = False, sourceId = the (resolveSource c n),
         parentId = None,
         position = (if mig \<and> display c = Some vertical then (0, 0) else position n),
         visible = visible n, node_output = Some (contexts w (resolveDisplay c w n)),
         node_display = Some (resolveDisplay c w n)\<rparr>)"

text \<open>The state after one node has been copied into the destination scene \<open>d\<close>.\<close>

definition copyWorld :: "bool \<Rightarrow> command \<Rightarrow> world \<Rightarrow> scene \<Rightarrow> node \<Rightarrow> world" where
  "copyWorld mig c w d n =
     w\<lparr>scenes := (scenes w)(destSceneId c \<mapsto>
           d\<lparr>nodes := (nodes d)(allocId c w n \<mapsto> newNode mig c w n (allocId c w n)),
             nodesIds := allocId c w n # nodesIds d\<rparr>),
       sceneNodeMaps :=
         (if mig \<and> display c = Some vertical
          then (sceneNodeMaps w)(destSceneId c :=
                 AList.update (Some (node_id n)) (Some (allocId c w n))
                   (sceneNodeMaps w (destSceneId c)))
          else sceneNodeMaps w),
       uuidCount := (if map_of (nodeIdsMap c) (node_id n) = None
                     then Suc (uuidCount w) else uuidCount w)\<rparr>"

text \<open>Two command states that differ in the node-id table at most.\<close>

definition sameCmd :: "command \<Rightarrow> command \<Rightarrow> bool" where
  "sameCmd c c' = (selection c' = selection c \<and> destSceneId c' = destSceneId c
     \<and> duplicateSources c' = duplicateSources c \<and> display c' = display c
     \<and> sourceIdsMap c' = sourceIdsMap c \<and> hasNodeMap c' = hasNodeMap c)"

text \<open>Two states whose services answer alike: what the command reads and never writes.\<close>

definition sameServices :: "world \<Rightarrow> world \<Rightarrow> bool" where
  "sameServices w w' = (dualOutputMode w' = dualOutputMode w \<and> activeDisplay w' = activeDisplay w
     \<and> nodeDisplays w' = nodeDisplays w \<and> contexts w' = contexts w \<and> uuid w' = uuid w)"

text \<open>
  The intermediate states of an execute() that returns: after the duplication pass
  (\<open>c1\<close>, \<open>w1\<close>), after the creation pass (\<open>c2\<close>, \<open>w2\<close>, destination scene
  \<open>d2\<close>) and after the relinking pass (\<open>w3\<close>, destination scene \<open>d3\<close>).
\<close>

definition executeStages ::
  "command \<Rightarrow> world \<Rightarrow> scene \<Rightarrow> command \<Rightarrow> world \<Rightarrow> string list
     \<Rightarrow> command \<Rightarrow> world \<Rightarrow> command \<Rightarrow> world \<Rightarrow> world \<Rightarrow> scene \<Rightarrow> scene \<Rightarrow> bool" where
  "executeStages c w d c' w' ins c1 w1 c2 w2 w3 d2 d3 =
     (duplicatePass c w = Inr (c1, w1)
    \<and> copyNodes (isMigration c1 w1) c1 w1 [] (copied c1 w1) = Inr (c2, w2, ins)
    \<and> nodeIdsMap c' = nodeIdsMap c2 \<and> sameCmd (c2\<lparr>hasNodeMap := hasNodeMap c'\<rparr>) c'
    \<and> hasNodeMap c' = (hasNodeMap c \<or> isMigration c1 w1)
    \<and> destSceneId c' = destSceneId c \<and> selection c' = selection c
    \<and> scenes w1 = scenes w \<and> sameCmd (c\<lparr>sourceIdsMap := sourceIdsMap c1\<rparr>) c1
    \<and> nodeIdsMap c1 = nodeIdsMap c \<and> sameServices w w1
    \<and> sceneNodeMaps w1 = sceneNodeMaps w
    \<and> scenes w2 = (scenes w)(destSceneId c \<mapsto> d2) \<and> nodesIds d2 = rev ins @ nodesIds d
    \<and> (\<forall>j. j \<notin> set ins \<longrightarrow> nodes d2 j = nodes d j)
    \<and> relinkNodes c' w2 (getNodes (selection c)) = Inr w3
    \<and> scenes w3 = (scenes w)(destSceneId c \<mapsto> d3) \<and> nodesIds d3 = nodesIds d2
    \<and> sceneNodeMaps w3 = sceneNodeMaps w2 \<and> sameServices w2 w3
    \<and> reorderPass c' w3 (nodesIds d) = Inr w')"

text \<open>What a run of execute() leaves in the tables, and the ids it created.\<close>

definition tablesOf ::
  "error + (command \<times> world \<times> string list)
     \<Rightarrow> ((string \<times> string) list \<times> (string \<times> string) list option \<times> string list) option" where
  "tablesOf r = (case r of Inl e \<Rightarrow> None
                 | Inr (c, w, ins) \<Rightarrow> Some (nodeIdsMap c, sourceIdsMap c, ins))"

text \<open>
  What a run of execute() leaves of a migration: the node map of the destination scene and
  the positions of the created nodes.
\<close>

definition migrationOf ::
  "error + (command \<times> world \<times> string list)
     \<Rightarrow> ((string option \<times> string option) list \<times> (real \<times> real) option list) option" where
  "migrationOf r =
     (case r of Inl e \<Rightarrow> None
      | Inr (c, w, ins) \<Rightarrow>
          Some (sceneNodeMaps w (destSceneId c),
                map (\<lambda>i. map_option position (getNode w (destSceneId c) (Some i))) ins))"

section \<open>Example scenes\<close>

text \<open>
  A collection with a vanilla scene \<open>A\<close> (a folder \<open>f\<close> holding the item \<open>i\<close>, a folder
  \<open>g\<close> holding the item \<open>j\<close>), a vanilla scene \<open>B\<close>, and a dual-output scene \<open>D\<close> whose
  node map pairs \<open>h\<close> with \<open>v\<close> and \<open>k\<close> with \<open>kv\<close>. Source \<open>s2\<close> is marked
  non-duplicable.
\<close>

definition exItem :: "string \<Rightarrow> string \<Rightarrow> string option \<Rightarrow> node" where
  "exItem i s p = \<lparr>node_id = i, name = i, folder = False, sourceId = s, parentId = p,
      position = (3, 4), visible = True, node_output = None, node_display = None\<rparr>"

definition exFolder :: "string \<Rightarrow> string option \<Rightarrow> node" where
  "exFolder i p = \<lparr>node_id = i, name = i, folder = True, sourceId = [], parentId = p,
      position = (0, 0), visible = True, node_output = None, node_display = None\<rparr>"

definition exSceneA :: scene where
  "exSceneA = \<lparr>nodes = [''g'' \<mapsto> exFolder ''g'' None, ''j'' \<mapsto> exItem ''j'' ''s2'' (Some ''g''),
                         ''f'' \<mapsto> exFolder ''f'' None, ''i'' \<mapsto> exItem ''i'' ''s1'' (Some ''f'')],
               nodesIds = [''g'', ''j'', ''f'', ''i'']\<rparr>"

definition exSceneB :: scene where
  "exSceneB = \<lparr>nodes = [''x'' \<mapsto> exItem ''x'' ''s1'' None], nodesIds = [''x'']\<rparr>"

definition exSceneD :: scene where
  "exSceneD = \<lparr>nodes = [''h'' \<mapsto> exItem ''h'' ''s1'' None, ''v'' \<mapsto> exItem ''v'' ''s1'' None,
                         ''k'' \<mapsto> exItem ''k'' ''s2'' None, ''kv'' \<mapsto> exItem ''kv'' ''s2'' None],
               nodesIds = [''h'', ''k'', ''v'', ''kv'']\<rparr>"

definition exWorld :: world where
  "exWorld =
     \<lparr>scenes = [''A'' \<mapsto> exSceneA, ''B'' \<mapsto> exSceneB, ''D'' \<mapsto> exSceneD],
      sceneNodeMaps = (\<lambda>s. if s = ''D'' then [(Some ''h'', Some ''v''), (Some ''k'', Some ''kv'')]
                            else []),
      sources = [''s1'' \<mapsto> \<lparr>doNotDuplicate = False\<rparr>, ''s2'' \<mapsto> \<lparr>doNotDuplicate = True\<rparr>],
      dualOutputMode = True, activeDisplay = horizontal,
      nodeDisplays = (\<lambda>n s. if n = ''v'' \<or> n = ''kv'' then vertical else horizontal),
      contexts = (\<lambda>d. if d = horizontal then 0 else 1),
      uuid = (\<lambda>n. CHR ''u'' # replicate n CHR ''+''), uuidCount = 0\<rparr>"

text \<open>The same collection with dual-output mode switched off.\<close>

definition exWorldSingle :: world where
  "exWorldSingle = exWorld\<lparr>dualOutputMode := False\<rparr>"

text \<open>Pasting the item \<open>i\<close> of scene \<open>A\<close> into scene \<open>D\<close>, and undoing it.\<close>

definition exPaste :: command where
  "exPaste = CopyNodesCommand exWorldSingle
               \<lparr>sceneId = ''A'', sel_nodes = [exItem ''i'' ''s1'' (Some ''f'')]\<rparr> ''D'' False None"

definition exPasted :: "command \<times> world \<times> string list" where
  "exPasted = projr (execute exPaste exWorldSingle)"

definition exPasteUndone :: world where
  "exPasteUndone = projr (rollback (fst exPasted) (fst (snd exPasted)))"

text \<open>
  A command whose table records the copies \<open>x\<close>, which scene \<open>B\<close> holds, and \<open>gone\<close>,
  which it does not.
\<close>

definition exStale :: command where
  "exStale = (CopyNodesCommand exWorld \<lparr>sceneId = ''A'', sel_nodes = []\<rparr> ''B'' False None)
               \<lparr>nodeIdsMap := [(''i'', ''gone''), (''f'', ''x'')]\<rparr>"

text \<open>
  Migrating the selection \<open>i\<close>, \<open>f\<close>, \<open>j\<close> of the vanilla scene \<open>A\<close> into scene \<open>B\<close>
  with the forced display \<open>vertical\<close>, duplicating the sources.
\<close>

definition exSel :: selection where
  "exSel = \<lparr>sceneId = ''A'',
            sel_nodes = [exItem ''i'' ''s1'' (Some ''f''), exFolder ''f'' None,
                         exItem ''j'' ''s2'' (Some ''g'')]\<rparr>"

definition exMigrate :: command where
  "exMigrate = CopyNodesCommand exWorld exSel ''B'' True (Some vertical)"

definition exMigrated :: "command \<times> world \<times> string list" where
  "exMigrated = projr (execute exMigrate exWorld)"

text \<open>
  Copying the horizontal item \<open>h\<close> and its vertical twin \<open>v\<close> of the dual-output scene
  \<open>D\<close> into scene \<open>B\<close>; and copying the horizontal item \<open>k\<close> alone, without its twin.
\<close>

definition exDual :: command where
  "exDual = CopyNodesCommand exWorld
              \<lparr>sceneId = ''D'', sel_nodes = [exItem ''h'' ''s1'' None, exItem ''v'' ''s1'' None]\<rparr>
              ''B'' False None"

definition exDualDone :: "command \<times> world \<times> string list" where
  "exDualDone = projr (execute exDual exWorld)"

definition exDualK :: command where
  "exDualK = CopyNodesCommand exWorld
               \<lparr>sceneId = ''D'', sel_nodes = [exItem ''k'' ''s2'' None]\<rparr> ''B'' False None"

definition exDualKDone :: "command \<times> world \<times> string list" where
  "exDualKDone = projr (execute exDualK exWorld)"

text \<open>The state after the migration has been undone.\<close>

definition exMigrateUndone :: world where
  "exMigrateUndone = projr (rollback (fst exMigrated) (fst (snd exMigrated)))"

text \<open>
  The copy of \<open>h\<close> and \<open>v\<close> undone, then redone after dual-output mode has been switched
  off, then undone again.
\<close>

definition exDualUndone :: world where
  "exDualUndone = projr (rollback (fst exDualDone) (fst (snd exDualDone)))"

definition exDualRedone :: "command \<times> world \<times> string list" where
  "exDualRedone = projr (execute (fst exDualDone) (exDualUndone\<lparr>dualOutputMode := False\<rparr>))"

definition exDualReundone :: world where
  "exDualReundone = projr (rollback (fst exDualRedone) (fst (snd exDualRedone)))"

text \<open>
  A dual-output scene \<open>E\<close>: the folder \<open>p\<close> of the horizontal display holds the
  horizontal item \<open>h\<close> and its vertical twin \<open>v\<close>. With dual-output mode off, the whole
  scene is selected and copied into scene \<open>B\<close>.
\<close>

definition exSceneE :: scene where
  "exSceneE = \<lparr>nodes = [''p'' \<mapsto> exFolder ''p'' None, ''h'' \<mapsto> exItem ''h'' ''s1'' (Some ''p''),
                         ''v'' \<mapsto> exItem ''v'' ''s1'' (Some ''p'')],
               nodesIds = [''p'', ''h'', ''v'']\<rparr>"

definition exWorldNested :: world where
  "exWorldNested =
     exWorldSingle\<lparr>scenes := (scenes exWorldSingle)(''E'' \<mapsto> exSceneE),
                   sceneNodeMaps := (sceneNodeMaps exWorldSingle)(''E'' := [(Some ''h'', Some ''v'')])\<rparr>"

definition exNested :: command where
  "exNested = CopyNodesCommand exWorldNested
                \<lparr>sceneId = ''E'',
                 sel_nodes = [exFolder ''p'' None, exItem ''h'' ''s1'' (Some ''p''),
                              exItem ''v'' ''s1'' (Some ''p'')]\<rparr>
                ''B'' False None"

definition exNestedCreated :: "command \<times> world \<times> string list" where
  "exNestedCreated = projr (createPass exNested exWorldNested)"

section \<open>Lemmas\<close>

lemmas model_defs = execute_def rollback_def duplicatePass_def createPass_def reorderPass_def
  relinkNode_def copyNode_def copyItem_def copyFolder_def nodeMapStep_def isMigration_def
  getNodes_def getNodesFor_def getSources_def duplicate_def addSource_def createFolder_def
  insertNode_def newId_def updateScene_def updateNode_def getNode_def setDisplay_def
  setSettings_def setTransform_def setParent_def getNodesIds_def setNodesOrder_def
  removeNode_def removeNodeMap_def createNodeMapEntry_def getVerticalNodeId_def
  getNodeDisplay_def views_hasNodeMap_def resolveDisplay_def resolveSource_def
  CopyNodesCommand_def truthy_def propKey_def Let_def

lemmas example_defs = exWorld_def exWorldSingle_def exSceneA_def exSceneB_def exSceneD_def
  exItem_def exFolder_def exSel_def

subsection \<open>Equality of states\<close>

lemma scene_eq_iff: "(a = b) = (nodes a = nodes b \<and> nodesIds a = nodesIds b)"
  for a b :: scene
  by (auto intro: scene.equality)

lemma fun_upd_same_eq: "(f(x := y) = f(x := z)) = (y = z)"
  by (auto dest: fun_upd_eqD)

lemma world_eq_iff:
  "(a = b) = (scenes a = scenes b \<and> sceneNodeMaps a = sceneNodeMaps b \<and> sources a = sources b
     \<and> dualOutputMode a = dualOutputMode b \<and> activeDisplay a = activeDisplay b
     \<and> nodeDisplays a = nodeDisplays b \<and> contexts a = contexts b \<and> uuid a = uuid b
     \<and> uuidCount a = uuidCount b)"
  for a b :: world
  by (auto intro: world.equality)

subsection \<open>Updates of a scene\<close>

lemma updateScene_fields [simp]:
  "sceneNodeMaps (updateScene w s f) = sceneNodeMaps w"
  "sources (updateScene w s f) = sources w"
  "dualOutputMode (updateScene w s f) = dualOutputMode w"
  "activeDisplay (updateScene w s f) = activeDisplay w"
  "nodeDisplays (updateScene w s f) = nodeDisplays w"
  "contexts (updateScene w s f) = contexts w"
  "uuid (updateScene w s f) = uuid w"
  "uuidCount (updateScene w s f) = uuidCount w"
  by (simp_all add: updateScene_def split: option.split)

lemma updateScene_scenes:
  "scenes (updateScene w s f) t =
     (if t = s then map_option f (scenes w s) else scenes w t)"
  by (simp add: updateScene_def split: option.split)

lemma updateScene_Some:
  "scenes w s = Some sc \<Longrightarrow> updateScene w s f = w\<lparr>scenes := (scenes w)(s \<mapsto> f sc)\<rparr>"
  by (simp add: updateScene_def)

lemma removeNodes_fields [simp]:
  "sceneNodeMaps (removeNodes w s is) = sceneNodeMaps w"
  by (induction "is" arbitrary: w) (simp_all add: removeNode_def split: option.split)

lemma removeNodes_other:
  "t \<noteq> s \<Longrightarrow> scenes (removeNodes w s is) t = scenes w t"
  by (induction "is" arbitrary: w) (simp_all add: removeNode_def updateScene_scenes split: option.split)

lemma removeNodes_scene:
  assumes "scenes w s = Some sc" "wfScene sc"
  shows "scenes (removeNodes w s is) s =
     Some (sc\<lparr>nodes := (\<lambda>k. if k \<in> set is then None else nodes sc k),
              nodesIds := filter (\<lambda>k. \<not> (k \<in> set is \<and> nodes sc k \<noteq> None)) (nodesIds sc)\<rparr>)"
  using assms
proof (induction "is" arbitrary: w sc)
  case Nil
  then show ?case by simp
next
  case (Cons i "is")
  show ?case
  proof (cases "nodes sc i")
    case None
    with Cons.prems have "getNode w s (Some i) = None" by (simp add: getNode_def)
    with Cons.IH[OF Cons.prems] None show ?thesis
      by (auto intro!: scene.equality filter_cong simp: fun_eq_iff)
  next
    case (Some n)
    with Cons.prems have g: "getNode w s (Some i) = Some n" and ni: "node_id n = i"
      by (simp_all add: getNode_def wfScene_def)
    let ?sc = "sc\<lparr>nodes := (nodes sc)(i := None), nodesIds := filter (\<lambda>k. k \<noteq> i) (nodesIds sc)\<rparr>"
    have s1: "scenes (removeNode w s i) s = Some ?sc"
      using Cons.prems by (simp add: removeNode_def updateScene_scenes)
    have wf1: "wfScene ?sc" using Cons.prems by (simp add: wfScene_def)
    from Cons.IH[OF s1 wf1] g ni Some show ?thesis
      by (auto intro!: scene.equality filter_cong simp: fun_eq_iff)
  qed
qed


subsection \<open>The creation pass\<close>

lemmas copy_defs = copyFolder_def copyItem_def createFolder_def addSource_def
      newId_def insertNode_def updateScene_def updateNode_def setDisplay_def setSettings_def
      setTransform_def createNodeMapEntry_def allocId_def newNode_def resolveDisplay_def
      getNodeDisplay_def copyWorld_def Let_def

lemma copyFolder_eq:
  assumes "scenes w (destSceneId c) = Some d" "folder n"
  shows "copyFolder mig c w n =
           (c\<lparr>nodeIdsMap := AList.update (node_id n) (allocId c w n) (nodeIdsMap c)\<rparr>,
            copyWorld mig c w d n, allocId c w n)"
  using assms
  by (cases "map_of (nodeIdsMap c) (node_id n)")
     (simp_all add: copy_defs world_eq_iff scene_eq_iff fun_upd_same_eq split: option.split)

lemma copyItem_eq:
  assumes "scenes w (destSceneId c) = Some d" "\<not> folder n"
    "resolveSource c n = Some s" "sources w s = Some src"
  shows "copyItem mig c w n =
           Inr (c\<lparr>nodeIdsMap := AList.update (node_id n) (allocId c w n) (nodeIdsMap c)\<rparr>,
            copyWorld mig c w d n, allocId c w n)"
  using assms
  by (cases "map_of (nodeIdsMap c) (node_id n)")
     (simp_all add: copy_defs world_eq_iff scene_eq_iff fun_upd_same_eq split: option.split)

lemma copyItem_Inr:
  assumes "copyItem mig c w n = Inr r"
  shows "\<exists>s src. resolveSource c n = Some s \<and> sources w s = Some src"
  using assms by (auto simp: copyItem_def addSource_def Let_def split: option.splits)

lemma copyNode_step:
  assumes "copyNode mig c w n = Inr (c', w', i)" and "scenes w (destSceneId c) = Some d"
  shows "i = allocId c w n"
    and "c' = c\<lparr>nodeIdsMap := AList.update (node_id n) i (nodeIdsMap c)\<rparr>"
    and "w' = copyWorld mig c w d n"
proof -
  have "copyNode mig c w n =
          Inr (c\<lparr>nodeIdsMap := AList.update (node_id n) (allocId c w n) (nodeIdsMap c)\<rparr>,
               copyWorld mig c w d n, allocId c w n)"
  proof (cases "folder n")
    case True
    then show ?thesis using assms(2) by (simp add: copyNode_def copyFolder_eq)
  next
    case False
    with assms(1) obtain s src where "resolveSource c n = Some s" "sources w s = Some src"
      using copyItem_Inr by (fastforce simp: copyNode_def)
    with False assms(2) show ?thesis by (simp add: copyNode_def copyItem_eq)
  qed
  with assms(1) show "i = allocId c w n"
    and "c' = c\<lparr>nodeIdsMap := AList.update (node_id n) i (nodeIdsMap c)\<rparr>"
    and "w' = copyWorld mig c w d n" by auto
qed


lemma sameCmd_refl [simp]: "sameCmd c c" by (simp add: sameCmd_def)
lemma sameServices_refl [simp]: "sameServices w w" by (simp add: sameServices_def)
lemma sameCmd_trans: "sameCmd a b \<Longrightarrow> sameCmd b c \<Longrightarrow> sameCmd a c" by (simp add: sameCmd_def)
lemma sameServices_trans: "sameServices a b \<Longrightarrow> sameServices b c \<Longrightarrow> sameServices a c"
  by (simp add: sameServices_def)

lemma newNode_cong:
  "sameCmd c c' \<Longrightarrow> sameServices w w' \<Longrightarrow> newNode mig c' w' n i = newNode mig c w n i"
  by (simp add: sameCmd_def sameServices_def newNode_def resolveDisplay_def resolveSource_def
      getNodeDisplay_def split: option.split)

lemma copyWorld_fields:
  "scenes (copyWorld mig c w d n) = (scenes w)(destSceneId c \<mapsto>
           d\<lparr>nodes := (nodes d)(allocId c w n \<mapsto> newNode mig c w n (allocId c w n)),
             nodesIds := allocId c w n # nodesIds d\<rparr>)"
  "sources (copyWorld mig c w d n) = sources w"
  "sameServices w (copyWorld mig c w d n)"
  "uuidCount w \<le> uuidCount (copyWorld mig c w d n)"
  "s \<noteq> destSceneId c \<Longrightarrow> sceneNodeMaps (copyWorld mig c w d n) s = sceneNodeMaps w s"
  "sceneNodeMaps (copyWorld mig c w d n) (destSceneId c) =
     (if mig \<and> display c = Some vertical
      then AList.update (Some (node_id n)) (Some (allocId c w n)) (sceneNodeMaps w (destSceneId c))
      else sceneNodeMaps w (destSceneId c))"
  by (simp_all add: copyWorld_def sameServices_def)

lemma copyNodes_Cons:
  assumes "copyNodes mig c w ins0 (n # ns) = Inr (c', w', ins')"
    and "scenes w (destSceneId c) = Some d"
  shows "copyNodes mig (c\<lparr>nodeIdsMap := AList.update (node_id n) (allocId c w n) (nodeIdsMap c)\<rparr>)
           (copyWorld mig c w d n) (ins0 @ [allocId c w n]) ns = Inr (c', w', ins')"
proof -
  from assms(1) obtain c1 w1 i where s: "copyNode mig c w n = Inr (c1, w1, i)"
    and r: "copyNodes mig c1 w1 (ins0 @ [i]) ns = Inr (c', w', ins')"
    by (auto split: sum.splits)
  from copyNode_step[OF s assms(2)] r show ?thesis by simp
qed

lemma copyNodes_frame:
  assumes "copyNodes mig c w ins0 ns = Inr (c', w', ins')"
    and "scenes w (destSceneId c) = Some d"
  shows "\<exists>new d'. ins' = ins0 @ new \<and> length new = length ns \<and> sameCmd c c'
           \<and> sameServices w w' \<and> sources w' = sources w \<and> uuidCount w \<le> uuidCount w'
           \<and> (\<forall>s. s \<noteq> destSceneId c \<longrightarrow> sceneNodeMaps w' s = sceneNodeMaps w s)
           \<and> scenes w' = (scenes w)(destSceneId c \<mapsto> d')
           \<and> nodesIds d' = rev new @ nodesIds d
           \<and> (\<forall>j. j \<notin> set new \<longrightarrow> nodes d' j = nodes d j)"
  using assms
proof (induction ns arbitrary: c w ins0 d)
  case Nil
  then have "scenes w' = (scenes w)(destSceneId c \<mapsto> d)" "c' = c" "w' = w" "ins' = ins0"
    by (simp_all add: fun_upd_idem)
  then show ?case by (intro exI[of _ "[]"] exI[of _ d]) simp
next
  case (Cons n ns)
  let ?i = "allocId c w n"
  let ?c1 = "c\<lparr>nodeIdsMap := AList.update (node_id n) ?i (nodeIdsMap c)\<rparr>"
  let ?w1 = "copyWorld mig c w d n"
  let ?d1 = "d\<lparr>nodes := (nodes d)(?i \<mapsto> newNode mig c w n ?i), nodesIds := ?i # nodesIds d\<rparr>"
  have r: "copyNodes mig ?c1 ?w1 (ins0 @ [?i]) ns = Inr (c', w', ins')"
    using copyNodes_Cons[OF Cons.prems] .
  have s1: "scenes ?w1 (destSceneId ?c1) = Some ?d1" by (simp add: copyWorld_fields)
  from Cons.IH[OF r s1] obtain new d' where
    h: "ins' = (ins0 @ [?i]) @ new" "length new = length ns" "sameCmd ?c1 c'"
      "sameServices ?w1 w'" "sources w' = sources ?w1" "uuidCount ?w1 \<le> uuidCount w'"
      "\<forall>s. s \<noteq> destSceneId ?c1 \<longrightarrow> sceneNodeMaps w' s = sceneNodeMaps ?w1 s"
      "scenes w' = (scenes ?w1)(destSceneId ?c1 \<mapsto> d')"
      "nodesIds d' = rev new @ nodesIds ?d1"
      "\<forall>j. j \<notin> set new \<longrightarrow> nodes d' j = nodes ?d1 j"
    by blast
  have c: "sameCmd c c'" using h(3) by (simp add: sameCmd_def)
  have sv: "sameServices w w'"
    using sameServices_trans[OF copyWorld_fields(3) h(4)] .
  have u: "uuidCount w \<le> uuidCount w'"
    using h(6) copyWorld_fields(4)[of w mig c d n] by linarith
  show ?case
    apply (rule exI[of _ "?i # new"], rule exI[of _ d'])
    using h c sv u by (simp add: copyWorld_fields)
qed

lemma allocId_hint: "map_of (nodeIdsMap c) (node_id n) = Some v \<Longrightarrow> allocId c w n = v"
  by (simp add: allocId_def)

lemma copyNodes_table:
  assumes "copyNodes mig c w ins0 ns = Inr (c', w', ins')"
    and "scenes w (destSceneId c) = Some d"
  shows "ins' = ins0 @ map (\<lambda>n. the (map_of (nodeIdsMap c') (node_id n))) ns
       \<and> (\<forall>k v. map_of (nodeIdsMap c) k = Some v \<longrightarrow> map_of (nodeIdsMap c') k = Some v)
       \<and> (\<forall>k. k \<notin> node_id ` set ns \<longrightarrow> map_of (nodeIdsMap c') k = map_of (nodeIdsMap c) k)
       \<and> (\<forall>n\<in>set ns. map_of (nodeIdsMap c') (node_id n) \<noteq> None)
       \<and> fst ` set (nodeIdsMap c') = fst ` set (nodeIdsMap c) \<union> node_id ` set ns
       \<and> (distinct (map fst (nodeIdsMap c)) \<longrightarrow> distinct (map fst (nodeIdsMap c')))"
  using assms
proof (induction ns arbitrary: c w ins0 d)
  case Nil
  then show ?case by simp
next
  case (Cons n ns)
  let ?i = "allocId c w n"
  let ?T1 = "AList.update (node_id n) ?i (nodeIdsMap c)"
  let ?c1 = "c\<lparr>nodeIdsMap := ?T1\<rparr>"
  let ?w1 = "copyWorld mig c w d n"
  have r: "copyNodes mig ?c1 ?w1 (ins0 @ [?i]) ns = Inr (c', w', ins')"
    using copyNodes_Cons[OF Cons.prems] .
  have s1: "scenes ?w1 (destSceneId ?c1) = Some
     (d\<lparr>nodes := (nodes d)(?i \<mapsto> newNode mig c w n ?i), nodesIds := ?i # nodesIds d\<rparr>)"
    by (simp add: copyWorld_fields)
  note ih = Cons.IH[OF r s1]
  have m1: "map_of ?T1 = (map_of (nodeIdsMap c))(node_id n \<mapsto> ?i)"
    by (rule update_conv')
  have stab0: "\<And>k v. map_of (nodeIdsMap c) k = Some v \<Longrightarrow> map_of ?T1 k = Some v"
    using allocId_hint[of c n _ w] by (auto simp: m1)
  have stab1: "\<And>k v. map_of ?T1 k = Some v \<Longrightarrow> map_of (nodeIdsMap c') k = Some v"
    using ih by simp
  have hd: "map_of (nodeIdsMap c') (node_id n) = Some ?i"
    using stab1[of "node_id n" ?i] by (simp add: m1)
  have p1: "ins' = ins0 @ map (\<lambda>n. the (map_of (nodeIdsMap c') (node_id n))) (n # ns)"
    using ih hd by simp
  have p2: "\<forall>k v. map_of (nodeIdsMap c) k = Some v \<longrightarrow> map_of (nodeIdsMap c') k = Some v"
    using stab0 stab1 by blast
  have p3: "\<forall>k. k \<notin> node_id ` set (n # ns) \<longrightarrow> map_of (nodeIdsMap c') k = map_of (nodeIdsMap c) k"
    using ih by (simp add: m1)
  have p4: "\<forall>m\<in>set (n # ns). map_of (nodeIdsMap c') (node_id m) \<noteq> None"
    using ih hd by simp
  have p5: "fst ` set (nodeIdsMap c') = fst ` set (nodeIdsMap c) \<union> node_id ` set (n # ns)"
    using ih by (auto simp: dom_update)
  have p6: "distinct (map fst (nodeIdsMap c)) \<longrightarrow> distinct (map fst (nodeIdsMap c'))"
    using ih by (simp add: distinct_update)
  from p1 p2 p3 p4 p5 p6 show ?case by blast
qed

lemma copyNodes_nodes:
  assumes "copyNodes mig c w ins0 ns = Inr (c', w', ins')"
    and "scenes w (destSceneId c) = Some d"
    and "ins' = ins0 @ new" and "scenes w' (destSceneId c) = Some d'"
  shows "(\<forall>i\<in>set new. \<exists>n\<in>set ns. nodes d' i = Some (newNode mig c w n i))
       \<and> (distinct new \<longrightarrow> (\<forall>n\<in>set ns.
             nodes d' (the (map_of (nodeIdsMap c') (node_id n)))
               = Some (newNode mig c w n (the (map_of (nodeIdsMap c') (node_id n))))))"
  using assms
proof (induction ns arbitrary: c w ins0 d new)
  case Nil
  then show ?case by simp
next
  case (Cons n ns)
  let ?i = "allocId c w n"
  let ?T1 = "AList.update (node_id n) ?i (nodeIdsMap c)"
  let ?c1 = "c\<lparr>nodeIdsMap := ?T1\<rparr>"
  let ?w1 = "copyWorld mig c w d n"
  let ?d1 = "d\<lparr>nodes := (nodes d)(?i \<mapsto> newNode mig c w n ?i), nodesIds := ?i # nodesIds d\<rparr>"
  let ?f = "\<lambda>n. the (map_of (nodeIdsMap c') (node_id n))"
  have r: "copyNodes mig ?c1 ?w1 (ins0 @ [?i]) ns = Inr (c', w', ins')"
    using copyNodes_Cons[OF Cons.prems(1,2)] .
  have s1: "scenes ?w1 (destSceneId ?c1) = Some ?d1"
    by (simp add: copyWorld_fields)
  from copyNodes_frame[OF r s1] obtain new1 d1' where
    f: "ins' = (ins0 @ [?i]) @ new1" "scenes w' = (scenes ?w1)(destSceneId ?c1 \<mapsto> d1')"
       "\<forall>j. j \<notin> set new1 \<longrightarrow> nodes d1' j = nodes ?d1 j"
    by blast
  have new: "new = ?i # new1" using f(1) Cons.prems(3) by simp
  have d': "d1' = d'" using f(2) Cons.prems(4) by simp
  have s': "scenes w' (destSceneId ?c1) = Some d'" using Cons.prems(4) by simp
  note ih = Cons.IH[OF r s1 f(1) s']
  have cong: "\<And>m j. newNode mig ?c1 ?w1 m j = newNode mig c w m j"
    by (rule newNode_cong) (simp_all add: sameCmd_def copyWorld_fields)
  from copyNodes_table[OF r s1] have tb: "map_of (nodeIdsMap c') (node_id n) = Some ?i"
    "new1 = map ?f ns"
    using f(1) by (simp_all add: update_conv')
  have a: "\<forall>i\<in>set new. \<exists>m\<in>set (n # ns). nodes d' i = Some (newNode mig c w m i)"
  proof
    fix i assume "i \<in> set new"
    show "\<exists>m\<in>set (n # ns). nodes d' i = Some (newNode mig c w m i)"
    proof (cases "i \<in> set new1")
      case True
      with ih cong show ?thesis by auto
    next
      case False
      with \<open>i \<in> set new\<close> new have "i = ?i" by simp
      with False f(3) d' show ?thesis by simp
    qed
  qed
  have b: "distinct new \<longrightarrow> (\<forall>m\<in>set (n # ns). nodes d' (?f m) = Some (newNode mig c w m (?f m)))"
  proof (intro impI ballI)
    fix m assume dn: "distinct new" and m: "m \<in> set (n # ns)"
    from dn new have d1: "distinct new1" and ni: "?i \<notin> set new1" by simp_all
    show "nodes d' (?f m) = Some (newNode mig c w m (?f m))"
    proof (cases "m \<in> set ns")
      case True
      with ih d1 cong show ?thesis by auto
    next
      case False
      with m have "m = n" by simp
      with tb(1) ni f(3) d' show ?thesis by simp
    qed
  qed
  from a b show ?case by blast
qed

lemma copyNodes_nodeMap:
  assumes "copyNodes mig c w ins0 ns = Inr (c', w', ins')"
    and "scenes w (destSceneId c) = Some d"
  shows "(\<not> (mig \<and> display c = Some vertical) \<longrightarrow> sceneNodeMaps w' = sceneNodeMaps w)
       \<and> (mig \<and> display c = Some vertical \<longrightarrow>
            (\<forall>n\<in>set ns. map_of (sceneNodeMaps w' (destSceneId c)) (Some (node_id n))
                            = Some (map_of (nodeIdsMap c') (node_id n)))
          \<and> (\<forall>k. k \<notin> Some ` node_id ` set ns \<longrightarrow>
                 map_of (sceneNodeMaps w' (destSceneId c)) k
                   = map_of (sceneNodeMaps w (destSceneId c)) k))"
  using assms
proof (induction ns arbitrary: c w ins0 d)
  case Nil
  then show ?case by simp
next
  case (Cons n ns)
  let ?i = "allocId c w n"
  let ?T1 = "AList.update (node_id n) ?i (nodeIdsMap c)"
  let ?c1 = "c\<lparr>nodeIdsMap := ?T1\<rparr>"
  let ?w1 = "copyWorld mig c w d n"
  let ?d1 = "d\<lparr>nodes := (nodes d)(?i \<mapsto> newNode mig c w n ?i), nodesIds := ?i # nodesIds d\<rparr>"
  have r: "copyNodes mig ?c1 ?w1 (ins0 @ [?i]) ns = Inr (c', w', ins')"
    using copyNodes_Cons[OF Cons.prems(1,2)] .
  have s1: "scenes ?w1 (destSceneId ?c1) = Some ?d1"
    by (simp add: copyWorld_fields)
  note ih = Cons.IH[OF r s1]
  from copyNodes_table[OF r s1] have tb: "map_of (nodeIdsMap c') (node_id n) = Some ?i"
    by (simp add: update_conv')
  show ?case
  proof (cases "mig \<and> display c = Some vertical")
    case False
    with ih show ?thesis by (auto simp: copyWorld_def)
  next
    case True
    have m1: "map_of (sceneNodeMaps ?w1 (destSceneId c))
                = (map_of (sceneNodeMaps w (destSceneId c)))(Some (node_id n) \<mapsto> Some ?i)"
      using True by (simp add: copyWorld_fields update_conv')
    have a: "\<forall>m\<in>set (n # ns). map_of (sceneNodeMaps w' (destSceneId c)) (Some (node_id m))
                            = Some (map_of (nodeIdsMap c') (node_id m))"
    proof
      fix m assume m: "m \<in> set (n # ns)"
      show "map_of (sceneNodeMaps w' (destSceneId c)) (Some (node_id m))
                            = Some (map_of (nodeIdsMap c') (node_id m))"
      proof (cases "node_id m \<in> node_id ` set ns")
        case True
        then obtain m' where "m' \<in> set ns" "node_id m' = node_id m" by auto
        with ih \<open>mig \<and> display c = Some vertical\<close> show ?thesis by force
      next
        case False
        with m have mn: "node_id m = node_id n" by auto
        from False have "Some (node_id m) \<notin> Some ` node_id ` set ns" by auto
        with ih True have "map_of (sceneNodeMaps w' (destSceneId c)) (Some (node_id m))
          = map_of (sceneNodeMaps ?w1 (destSceneId c)) (Some (node_id m))" by simp
        with mn tb m1 show ?thesis by simp
      qed
    qed
    have b: "\<forall>k. k \<notin> Some ` node_id ` set (n # ns) \<longrightarrow>
                 map_of (sceneNodeMaps w' (destSceneId c)) k
                   = map_of (sceneNodeMaps w (destSceneId c)) k"
      using ih True m1 by auto
    from a b True show ?thesis by blast
  qed
qed

subsection \<open>The duplication pass\<close>

lemma duplicate_frame:
  assumes "duplicate w s hint = Inr (dup, w')"
  shows "scenes w' = scenes w" "sceneNodeMaps w' = sceneNodeMaps w" "sameServices w w'"
    "uuidCount w \<le> uuidCount w'"
  using assms
  by (auto simp: duplicate_def newId_def sameServices_def Let_def
      split: option.splits if_splits prod.splits)

lemma duplicateAll_frame:
  assumes "duplicateAll m w ss = Inr (m', w')"
  shows "scenes w' = scenes w \<and> sceneNodeMaps w' = sceneNodeMaps w \<and> sameServices w w'
       \<and> uuidCount w \<le> uuidCount w'"
  using assms
proof (induction ss arbitrary: m w)
  case Nil
  then show ?case by simp
next
  case (Cons s ss)
  from Cons.prems obtain dup w1 where
    d: "duplicate w s (map_of m s) = Inr (dup, w1)" and
    r: "duplicateAll (AList.update s (case dup of Some d \<Rightarrow> d | None \<Rightarrow> s) m) w1 ss = Inr (m', w')"
    by (auto split: sum.splits)
  from Cons.IH[OF r] duplicate_frame[OF d] show ?case
    by (auto intro: sameServices_trans)
qed

lemma duplicatePass_frame:
  assumes "duplicatePass c w = Inr (c1, w1)"
  shows "scenes w1 = scenes w" "sceneNodeMaps w1 = sceneNodeMaps w" "sameServices w w1"
    "uuidCount w \<le> uuidCount w1"
    "sameCmd (c\<lparr>sourceIdsMap := sourceIdsMap c1\<rparr>) c1" "nodeIdsMap c1 = nodeIdsMap c"
  using assms duplicateAll_frame
  by (fastforce simp: duplicatePass_def sameCmd_def split: if_splits sum.splits)+

subsection \<open>The passes of execute()\<close>

lemma createPass_copyNodes:
  assumes "createPass c w = Inr (c', w', ins)"
  shows "\<exists>c''. copyNodes (isMigration c w) c w [] (copied c w) = Inr (c'', w', ins)
           \<and> nodeIdsMap c' = nodeIdsMap c'' \<and> sameCmd (c''\<lparr>hasNodeMap := hasNodeMap c'\<rparr>) c'
           \<and> hasNodeMap c' = (hasNodeMap c'' \<or> isMigration c w)"
  using assms
  by (auto simp: createPass_def copied_def sameCmd_def split: if_splits sum.splits)

lemma execute_passes:
  assumes "execute c w = Inr (c', w', ins)"
  shows "\<exists>d c1 w1 w2 w3. scenes w (destSceneId c) = Some d
           \<and> duplicatePass c w = Inr (c1, w1)
           \<and> createPass c1 w1 = Inr (c', w2, ins)
           \<and> relinkNodes c' w2 (getNodes (selection c')) = Inr w3
           \<and> reorderPass c' w3 (nodesIds d) = Inr w'"
  using assms
  by (auto simp: execute_def Let_def getNodesIds_def split: option.splits sum.splits)

subsection \<open>The relinking pass\<close>

lemma updateNode_scenes:
  assumes "scenes w s = Some d"
  shows "scenes (updateNode w s i f) =
           (scenes w)(s \<mapsto> (case nodes d i of None \<Rightarrow> d | Some n \<Rightarrow> d\<lparr>nodes := (nodes d)(i \<mapsto> f n)\<rparr>))"
  using assms by (simp add: updateNode_def updateScene_def)

lemma updateNode_fields [simp]:
  "sceneNodeMaps (updateNode w s i f) = sceneNodeMaps w"
  "sources (updateNode w s i f) = sources w"
  "uuidCount (updateNode w s i f) = uuidCount w"
  "sameServices w (updateNode w s i f)"
  by (simp_all add: updateNode_def sameServices_def)

lemma node_parent_self: "\<exists>p. x = x\<lparr>parentId := p\<rparr>" for x :: node
  by (rule exI[of _ "parentId x"]) simp

text \<open>What one relinking step does to the destination scene \<open>d\<close>.\<close>

lemma relinkNode_frame:
  assumes "relinkNode c w n = Inr w'" and "scenes w (destSceneId c) = Some d"
  shows "\<exists>d'. scenes w' = (scenes w)(destSceneId c \<mapsto> d') \<and> nodesIds d' = nodesIds d
          \<and> sceneNodeMaps w' = sceneNodeMaps w \<and> sources w' = sources w
          \<and> uuidCount w' = uuidCount w \<and> sameServices w w'
          \<and> (\<forall>j. (nodes d' j = None) = (nodes d j = None))
          \<and> (\<forall>j x. nodes d j = Some x \<longrightarrow> (\<exists>p. nodes d' j = Some (x\<lparr>parentId := p\<rparr>)))
          \<and> (\<forall>j. nodes d' j \<noteq> nodes d j \<longrightarrow>
                (\<exists>k m. map_of (nodeIdsMap c) (node_id n) = Some k \<and> nodes d k = Some m
                        \<and> j = node_id m))"
proof (cases "relinkNode c w n = Inr w")
  case True
  with assms have "w' = w" by simp
  then show ?thesis using assms(2)
    by (intro exI[of _ d]) (auto simp: fun_upd_idem node_parent_self)
next
  case False
  with assms have "\<exists>k m p. map_of (nodeIdsMap c) (node_id n) = Some k \<and> nodes d k = Some m
      \<and> w' = setParent w (destSceneId c) (node_id m) p"
    by (auto simp: relinkNode_def getNode_def Let_def split: option.splits if_splits)
  then obtain k m p where
    k: "map_of (nodeIdsMap c) (node_id n) = Some k" "nodes d k = Some m" and
    w': "w' = setParent w (destSceneId c) (node_id m) p"
    by blast
  show ?thesis
  proof (cases "nodes d (node_id m)")
    case None
    with w' assms(2) have "scenes w' = (scenes w)(destSceneId c \<mapsto> d)"
      by (simp add: setParent_def updateNode_scenes)
    then show ?thesis using w'
      by (intro exI[of _ d]) (auto simp: setParent_def node_parent_self)
  next
    case (Some y)
    let ?d' = "d\<lparr>nodes := (nodes d)(node_id m \<mapsto> y\<lparr>parentId := Some p\<rparr>)\<rparr>"
    from Some w' assms(2) have s: "scenes w' = (scenes w)(destSceneId c \<mapsto> ?d')"
      by (simp add: setParent_def updateNode_scenes)
    have a: "\<forall>j x. nodes d j = Some x \<longrightarrow> (\<exists>q. nodes ?d' j = Some (x\<lparr>parentId := q\<rparr>))"
    proof (intro allI impI)
      fix j x assume "nodes d j = Some x"
      then show "\<exists>q. nodes ?d' j = Some (x\<lparr>parentId := q\<rparr>)"
        using Some by (cases "j = node_id m") (auto intro: exI[of _ "parentId x"])
    qed
    have b: "\<forall>j. nodes ?d' j \<noteq> nodes d j \<longrightarrow>
                (\<exists>k m. map_of (nodeIdsMap c) (node_id n) = Some k \<and> nodes d k = Some m
                        \<and> j = node_id m)"
      using k by auto
    show ?thesis
      using s a b w' Some by (intro exI[of _ ?d']) (simp add: setParent_def)
  qed
qed

lemma relinkNodes_frame:
  assumes "relinkNodes c w ns = Inr w'" and "scenes w (destSceneId c) = Some d"
  shows "\<exists>d'. scenes w' = (scenes w)(destSceneId c \<mapsto> d') \<and> nodesIds d' = nodesIds d
          \<and> sceneNodeMaps w' = sceneNodeMaps w \<and> sources w' = sources w
          \<and> uuidCount w' = uuidCount w \<and> sameServices w w'
          \<and> (\<forall>j. (nodes d' j = None) = (nodes d j = None))
          \<and> (\<forall>j x. nodes d j = Some x \<longrightarrow> (\<exists>p. nodes d' j = Some (x\<lparr>parentId := p\<rparr>)))
          \<and> (\<forall>j. nodes d' j \<noteq> nodes d j \<longrightarrow>
                (\<exists>n\<in>set ns. \<exists>k m. map_of (nodeIdsMap c) (node_id n) = Some k
                        \<and> nodes d k = Some m \<and> j = node_id m))"
  using assms
proof (induction ns arbitrary: w d)
  case Nil
  then show ?case by (intro exI[of _ d]) (auto simp: fun_upd_idem node_parent_self)
next
  case (Cons n ns)
  from Cons.prems(1) obtain w1 where
    s: "relinkNode c w n = Inr w1" and r: "relinkNodes c w1 ns = Inr w'"
    by (auto split: sum.splits)
  from relinkNode_frame[OF s Cons.prems(2)] obtain d1 where
    f: "scenes w1 = (scenes w)(destSceneId c \<mapsto> d1)" "nodesIds d1 = nodesIds d"
       "sceneNodeMaps w1 = sceneNodeMaps w" "sources w1 = sources w"
       "uuidCount w1 = uuidCount w" "sameServices w w1"
       "\<forall>j. (nodes d1 j = None) = (nodes d j = None)"
       "\<forall>j x. nodes d j = Some x \<longrightarrow> (\<exists>p. nodes d1 j = Some (x\<lparr>parentId := p\<rparr>))"
       "\<forall>j. nodes d1 j \<noteq> nodes d j \<longrightarrow>
                (\<exists>k m. map_of (nodeIdsMap c) (node_id n) = Some k \<and> nodes d k = Some m
                        \<and> j = node_id m)"
    by blast
  have s1: "scenes w1 (destSceneId c) = Some d1" using f(1) by simp
  from Cons.IH[OF r s1] obtain d' where
    g: "scenes w' = (scenes w1)(destSceneId c \<mapsto> d')" "nodesIds d' = nodesIds d1"
       "sceneNodeMaps w' = sceneNodeMaps w1" "sources w' = sources w1"
       "uuidCount w' = uuidCount w1" "sameServices w1 w'"
       "\<forall>j. (nodes d' j = None) = (nodes d1 j = None)"
       "\<forall>j x. nodes d1 j = Some x \<longrightarrow> (\<exists>p. nodes d' j = Some (x\<lparr>parentId := p\<rparr>))"
       "\<forall>j. nodes d' j \<noteq> nodes d1 j \<longrightarrow>
                (\<exists>n\<in>set ns. \<exists>k m. map_of (nodeIdsMap c) (node_id n) = Some k
                        \<and> nodes d1 k = Some m \<and> j = node_id m)"
    by blast
  have par: "\<forall>j x. nodes d j = Some x \<longrightarrow> (\<exists>p. nodes d' j = Some (x\<lparr>parentId := p\<rparr>))"
  proof (intro allI impI)
    fix j x assume "nodes d j = Some x"
    with f(8) obtain p where "nodes d1 j = Some (x\<lparr>parentId := p\<rparr>)" by blast
    with g(8) obtain q where "nodes d' j = Some (x\<lparr>parentId := p, parentId := q\<rparr>)" by blast
    then show "\<exists>p. nodes d' j = Some (x\<lparr>parentId := p\<rparr>)" by auto
  qed
  have ch: "\<forall>j. nodes d' j \<noteq> nodes d j \<longrightarrow>
                (\<exists>n'\<in>set (n # ns). \<exists>k m. map_of (nodeIdsMap c) (node_id n') = Some k
                        \<and> nodes d k = Some m \<and> j = node_id m)"
  proof (intro allI impI)
    fix j assume neq: "nodes d' j \<noteq> nodes d j"
    show "\<exists>n'\<in>set (n # ns). \<exists>k m. map_of (nodeIdsMap c) (node_id n') = Some k
                        \<and> nodes d k = Some m \<and> j = node_id m"
    proof (cases "nodes d' j = nodes d1 j")
      case True
      with neq f(9) show ?thesis by auto
    next
      case False
      with g(9) obtain n' k m1 where n': "n' \<in> set ns"
        "map_of (nodeIdsMap c) (node_id n') = Some k" "nodes d1 k = Some m1" "j = node_id m1"
        by blast
      from n'(3) f(7) have "nodes d k \<noteq> None" by (metis option.distinct(1))
      then obtain x where x: "nodes d k = Some x" by blast
      with f(8) n'(3) obtain p where "m1 = x\<lparr>parentId := p\<rparr>" by fastforce
      with n' x show ?thesis by auto
    qed
  qed
  show ?case
    using f g par ch sameServices_trans[OF f(6) g(6)]
    by (intro exI[of _ d']) simp
qed

text \<open>One relinking step on a node whose copy the scene holds under the copy's own id.\<close>

lemma relinkNode_exact:
  assumes "relinkNode c w n = Inr w'" and "scenes w (destSceneId c) = Some d"
    and "map_of (nodeIdsMap c) (node_id n) = Some k" and "nodes d k = Some m"
    and "node_id m = k"
    and "\<forall>x p. map_of (nodeIdsMap c) (propKey (parentId n)) = Some x \<longrightarrow> nodes d x = Some p
            \<longrightarrow> node_id p = x"
  shows "scenes w' = (scenes w)(destSceneId c \<mapsto> d\<lparr>nodes := (nodes d)(k \<mapsto>
           m\<lparr>parentId :=
               (if truthy (map_of (nodeIdsMap c) (propKey (parentId n)))
                   \<and> nodes d (the (map_of (nodeIdsMap c) (propKey (parentId n)))) \<noteq> None
                then map_of (nodeIdsMap c) (propKey (parentId n)) else parentId m)\<rparr>)\<rparr>)"
proof (cases "map_of (nodeIdsMap c) (propKey (parentId n))")
  case None
  with assms(1) have "w' = w" by (simp add: relinkNode_def truthy_def Let_def)
  with None assms(2,4) show ?thesis
    by (simp add: truthy_def fun_upd_idem scene_eq_iff fun_upd_same_eq)
next
  case (Some x)
  show ?thesis
  proof (cases "truthy (Some x) \<and> nodes d x \<noteq> None")
    case False
    with assms(1,2) Some have "w' = w"
      by (auto simp: relinkNode_def getNode_def Let_def split: option.splits if_splits)
    with False Some assms(2,4) show ?thesis
      by (auto simp: fun_upd_idem scene_eq_iff fun_upd_same_eq)
  next
    case True
    then obtain p where p: "nodes d x = Some p" by auto
    with assms(6) Some have px: "node_id p = x" by simp
    from True p Some assms(1-5) have "w' = setParent w (destSceneId c) k x"
      by (simp add: relinkNode_def getNode_def Let_def px)
    with True Some assms(2,4) show ?thesis
      by (simp add: setParent_def updateNode_scenes)
  qed
qed

lemma relinkNodes_parent:
  assumes "relinkNodes c w ns = Inr w'" and "scenes w (destSceneId c) = Some d"
    and "scenes w' (destSceneId c) = Some d'"
    and "\<forall>k\<in>snd ` set (nodeIdsMap c). \<forall>m. nodes d k = Some m \<longrightarrow> node_id m = k"
    and "distinct (map node_id ns)"
    and "\<forall>n\<in>set ns. \<forall>n'\<in>set ns. map_of (nodeIdsMap c) (node_id n) = map_of (nodeIdsMap c) (node_id n')
           \<longrightarrow> map_of (nodeIdsMap c) (node_id n) \<noteq> None \<longrightarrow> node_id n = node_id n'"
  shows "\<forall>n\<in>set ns. \<forall>k m. map_of (nodeIdsMap c) (node_id n) = Some k \<longrightarrow> nodes d k = Some m \<longrightarrow>
           nodes d' k = Some (m\<lparr>parentId :=
             (if truthy (map_of (nodeIdsMap c) (propKey (parentId n)))
                 \<and> nodes d (the (map_of (nodeIdsMap c) (propKey (parentId n)))) \<noteq> None
              then map_of (nodeIdsMap c) (propKey (parentId n)) else parentId m)\<rparr>)"
  using assms
proof (induction ns arbitrary: w d)
  case Nil
  then show ?case by simp
next
  case (Cons a ns)
  let ?T = "map_of (nodeIdsMap c)"
  let ?pk = "\<lambda>n::node. ?T (propKey (parentId n))"
  let ?par = "\<lambda>(n::node) (m::node) (d::scene). if truthy (?pk n) \<and> nodes d (the (?pk n)) \<noteq> None
                 then ?pk n else parentId m"
  from Cons.prems(1) obtain w1 where
    s: "relinkNode c w a = Inr w1" and r: "relinkNodes c w1 ns = Inr w'"
    by (auto split: sum.splits)
  from relinkNode_frame[OF s Cons.prems(2)] obtain d1 where
    f: "scenes w1 = (scenes w)(destSceneId c \<mapsto> d1)"
       "\<forall>j. (nodes d1 j = None) = (nodes d j = None)"
       "\<forall>j x. nodes d j = Some x \<longrightarrow> (\<exists>p. nodes d1 j = Some (x\<lparr>parentId := p\<rparr>))"
       "\<forall>j. nodes d1 j \<noteq> nodes d j \<longrightarrow>
                (\<exists>k m. ?T (node_id a) = Some k \<and> nodes d k = Some m \<and> j = node_id m)"
    by blast
  have s1: "scenes w1 (destSceneId c) = Some d1" using f(1) by simp
  have own: "\<And>k m. k \<in> snd ` set (nodeIdsMap c) \<Longrightarrow> nodes d k = Some m \<Longrightarrow> node_id m = k"
    using Cons.prems(4) by blast
  have ran: "\<And>j k. ?T j = Some k \<Longrightarrow> k \<in> snd ` set (nodeIdsMap c)"
    by (force dest: map_of_SomeD)
  have own1: "\<forall>k\<in>snd ` set (nodeIdsMap c). \<forall>m. nodes d1 k = Some m \<longrightarrow> node_id m = k"
  proof (intro ballI allI impI)
    fix k m assume k: "k \<in> snd ` set (nodeIdsMap c)" and m: "nodes d1 k = Some m"
    with f(2) have "nodes d k \<noteq> None" by (metis option.distinct(1))
    then obtain x where x: "nodes d k = Some x" by blast
    with f(3) m obtain p where "m = x\<lparr>parentId := p\<rparr>" by fastforce
    with own[OF k x] show "node_id m = k" by simp
  qed
  have d5: "distinct (map node_id ns)" using Cons.prems(5) by simp
  have i6: "\<forall>n\<in>set ns. \<forall>n'\<in>set ns. ?T (node_id n) = ?T (node_id n')
           \<longrightarrow> ?T (node_id n) \<noteq> None \<longrightarrow> node_id n = node_id n'"
    using Cons.prems(6) by simp
  note ih = Cons.IH[OF r s1 Cons.prems(3) own1 d5 i6]
  from relinkNodes_frame[OF r s1] Cons.prems(3) have
    g: "\<forall>j. nodes d' j \<noteq> nodes d1 j \<longrightarrow>
                (\<exists>n\<in>set ns. \<exists>k m. ?T (node_id n) = Some k \<and> nodes d1 k = Some m \<and> j = node_id m)"
    by (auto dest: map_upd_eqD1)
  show ?case
  proof (intro ballI allI impI)
    fix n k m assume n: "n \<in> set (a # ns)" and k: "?T (node_id n) = Some k"
      and m: "nodes d k = Some m"
    have mk: "node_id m = k" using own[OF ran[OF k] m] .
    show "nodes d' k = Some (m\<lparr>parentId := ?par n m d\<rparr>)"
    proof (cases "n \<in> set ns")
      case True
      then have "node_id n \<in> node_id ` set ns" by simp
      moreover have "node_id a \<notin> node_id ` set ns" using Cons.prems(5) by simp
      ultimately have na: "node_id n \<noteq> node_id a" by metis
      have "nodes d1 k = nodes d k"
      proof (rule ccontr)
        assume "nodes d1 k \<noteq> nodes d k"
        with f(4) obtain k' m' where km: "?T (node_id a) = Some k'" "nodes d k' = Some m'"
          "k = node_id m'" by blast
        from own[OF ran[OF km(1)] km(2)] km(3) have "k = k'" by simp
        with km(1) k Cons.prems(6) n na show False by auto
      qed
      with m have m1: "nodes d1 k = Some m" by simp
      have "\<And>x. (nodes d1 x \<noteq> None) = (nodes d x \<noteq> None)" using f(2) by simp
      then have "?par n m d1 = ?par n m d" by simp
      with ih True k m1 show ?thesis by simp
    next
      case False
      with n have na: "n = a" by simp
      have px: "\<forall>x p. ?pk a = Some x \<longrightarrow> nodes d x = Some p \<longrightarrow> node_id p = x"
        using own ran by blast
      from relinkNode_exact[OF s Cons.prems(2) k[unfolded na] m mk px] f(1)
      have d1: "nodes d1 k = Some (m\<lparr>parentId := ?par a m d\<rparr>)"
        by (auto dest!: map_upd_eqD1)
      have "nodes d' k = nodes d1 k"
      proof (rule ccontr)
        assume "nodes d' k \<noteq> nodes d1 k"
        with g obtain n' k' m' where km: "n' \<in> set ns" "?T (node_id n') = Some k'"
          "nodes d1 k' = Some m'" "k = node_id m'" by blast
        from own1 ran[OF km(2)] km(3) km(4) have "k = k'" by auto
        with km(1,2) k na Cons.prems(5,6) show False by force
      qed
      with d1 show ?thesis unfolding na by (simp only:)
    qed
  qed
qed

subsection \<open>The reordering pass\<close>

lemma compactIds_append: "compactIds (xs @ ys) = compactIds xs @ compactIds ys"
  by (induction xs rule: compactIds.induct) simp_all

lemma compactIds_none: "\<forall>x\<in>set xs. f x = None \<Longrightarrow> compactIds (map f xs) = []"
  by (induction xs) simp_all

lemma set_compactIds: "set (compactIds xs) = {s. Some s \<in> set xs \<and> s \<noteq> []}"
  by (induction xs rule: compactIds.induct) auto

lemma nodeMapStep_frame:
  "scenes (nodeMapStep c w i) = scenes w"
  "sources (nodeMapStep c w i) = sources w"
  "sameServices w (nodeMapStep c w i)"
  "s \<noteq> destSceneId c \<Longrightarrow> sceneNodeMaps (nodeMapStep c w i) s = sceneNodeMaps w s"
  by (simp_all add: nodeMapStep_def createNodeMapEntry_def sameServices_def Let_def)

lemma nodeMapSteps_frame:
  "scenes (nodeMapSteps c w is) = scenes w \<and> sources (nodeMapSteps c w is) = sources w
   \<and> sameServices w (nodeMapSteps c w is)
   \<and> (\<forall>s. s \<noteq> destSceneId c \<longrightarrow> sceneNodeMaps (nodeMapSteps c w is) s = sceneNodeMaps w s)"
proof (induction "is" arbitrary: w)
  case Nil
  then show ?case by simp
next
  case (Cons i "is")
  from Cons.IH[of "nodeMapStep c w i"] show ?case
    by (auto simp: nodeMapStep_frame intro: sameServices_trans[OF nodeMapStep_frame(3)])
qed

lemma reorderPass_scenes:
  assumes "reorderPass c w init = Inr w'"
    and "scenes w (sceneId (selection c)) = Some s" and "scenes w (destSceneId c) = Some d"
  shows "scenes w' = (scenes w)(destSceneId c \<mapsto>
           d\<lparr>nodesIds := compactIds (map (map_of (nodeIdsMap c)) (nodesIds s)) @ init\<rparr>)"
  using assms nodeMapSteps_frame[of c w "nodesIds s"]
  by (auto simp: reorderPass_def Let_def setNodesOrder_def updateScene_def getNodesIds_def)

subsection \<open>Removing nodes; the values of the table\<close>

lemma removeNodes_scene':
  assumes "scenes w s = Some sc" "\<forall>k\<in>set is. \<forall>m. nodes sc k = Some m \<longrightarrow> node_id m = k"
  shows "scenes (removeNodes w s is) s =
     Some (sc\<lparr>nodes := (\<lambda>k. if k \<in> set is then None else nodes sc k),
              nodesIds := filter (\<lambda>k. \<not> (k \<in> set is \<and> nodes sc k \<noteq> None)) (nodesIds sc)\<rparr>)"
  using assms
proof (induction "is" arbitrary: w sc)
  case Nil
  then show ?case by simp
next
  case (Cons i "is")
  show ?case
  proof (cases "nodes sc i")
    case None
    with Cons.prems have g: "getNode w s (Some i) = None" by (simp add: getNode_def)
    have "\<forall>k\<in>set is. \<forall>m. nodes sc k = Some m \<longrightarrow> node_id m = k" using Cons.prems(2) by simp
    from Cons.IH[OF Cons.prems(1) this] None g show ?thesis
      by (auto intro!: scene.equality filter_cong simp: fun_eq_iff)
  next
    case (Some n)
    with Cons.prems have g: "getNode w s (Some i) = Some n" and ni: "node_id n = i"
      by (simp_all add: getNode_def)
    let ?sc = "sc\<lparr>nodes := (nodes sc)(i := None), nodesIds := filter (\<lambda>k. k \<noteq> i) (nodesIds sc)\<rparr>"
    have s1: "scenes (removeNode w s i) s = Some ?sc"
      using Cons.prems by (simp add: removeNode_def updateScene_scenes)
    have wf1: "\<forall>k\<in>set is. \<forall>m. nodes ?sc k = Some m \<longrightarrow> node_id m = k"
      using Cons.prems(2) by simp
    from Cons.IH[OF s1 wf1] g ni Some show ?thesis
      by (auto intro!: scene.equality filter_cong simp: fun_eq_iff)
  qed
qed

lemma removeNodes_scenes:
  assumes "scenes w s = Some sc" "\<forall>k\<in>set is. \<forall>m. nodes sc k = Some m \<longrightarrow> node_id m = k"
  shows "scenes (removeNodes w s is) = (scenes w)(s \<mapsto>
           sc\<lparr>nodes := (\<lambda>k. if k \<in> set is then None else nodes sc k),
              nodesIds := filter (\<lambda>k. \<not> (k \<in> set is \<and> nodes sc k \<noteq> None)) (nodesIds sc)\<rparr>)"
  using removeNodes_scene'[OF assms] removeNodes_other[of _ s w "is"]
  by (auto simp: fun_eq_iff)

lemma copied_cong:
  assumes "sameCmd (c\<lparr>sourceIdsMap := x\<rparr>) c1" "sameServices w w1"
  shows "copied c1 w1 = copied c w" "isMigration c1 w1 = isMigration c w"
  using assms
  by (simp_all add: copied_def isMigration_def sameCmd_def sameServices_def getNodes_def
      getNodesFor_def getNodeDisplay_def)

lemma reorderPass_Inr:
  assumes "reorderPass c w init = Inr w'"
  shows "\<exists>s. scenes w (sceneId (selection c)) = Some s"
  using assms by (auto simp: reorderPass_def split: option.splits)

text \<open>The values of the table after the creation pass are the created ids.\<close>

lemma copyNodes_values:
  assumes "copyNodes mig c w [] ns = Inr (c', w', ins)"
    and "scenes w (destSceneId c) = Some d"
    and "fst ` set (nodeIdsMap c) \<subseteq> node_id ` set ns"
    and "distinct (map fst (nodeIdsMap c))"
  shows "snd ` set (nodeIdsMap c') = set ins"
proof -
  let ?T = "nodeIdsMap c'"
  from copyNodes_table[OF assms(1,2)] have
    t: "ins = map (\<lambda>n. the (map_of ?T (node_id n))) ns"
       "\<forall>n\<in>set ns. map_of ?T (node_id n) \<noteq> None"
       "fst ` set ?T = fst ` set (nodeIdsMap c) \<union> node_id ` set ns"
       "distinct (map fst ?T)"
    using assms(4) by blast+
  show ?thesis
  proof (intro set_eqI iffI)
    fix v assume "v \<in> snd ` set ?T"
    then obtain k where kv: "(k, v) \<in> set ?T" by auto
    then have "k \<in> fst ` set ?T" by force
    with t(3) assms(3) obtain n where n: "n \<in> set ns" "k = node_id n" by auto
    from kv t(4) have "map_of ?T k = Some v" by simp
    with n t(1) show "v \<in> set ins" by force
  next
    fix v assume "v \<in> set ins"
    with t(1) obtain n where n: "n \<in> set ns" "v = the (map_of ?T (node_id n))" by auto
    with t(2) have "map_of ?T (node_id n) = Some v" by auto
    then show "v \<in> snd ` set ?T" by (force dest: map_of_SomeD)
  qed
qed

subsection \<open>The example migration\<close>

lemma exMigrated_facts:
  "execute exMigrate exWorld = Inr (fst exMigrated, fst (snd exMigrated), snd (snd exMigrated))"
  "nodeIdsMap (fst exMigrated) = [(''i'', ''u+''), (''f'', ''u++''), (''j'', ''u+++'')]"
  "sourceIdsMap (fst exMigrated) = Some [(''s1'', ''u''), (''s2'', ''s2'')]"
  "snd (snd exMigrated) = [''u+'', ''u++'', ''u+++'']"
  by (simp_all add: exMigrated_def exMigrate_def model_defs example_defs)

section \<open>execute()\<close>

text \<open>The destination scene after the creation and the relinking pass.\<close>

lemma execute_before_reorder:
  assumes "execute c w = Inr (c', w', ins)" and "scenes w (destSceneId c) = Some d"
  shows "\<exists>c1 w1 c2 w2 w3 d2 d3. executeStages c w d c' w' ins c1 w1 c2 w2 w3 d2 d3"
proof -
  from execute_passes[OF assms(1)] assms(2) obtain c1 w1 w2 w3 where
    p: "duplicatePass c w = Inr (c1, w1)" "createPass c1 w1 = Inr (c', w2, ins)"
       "relinkNodes c' w2 (getNodes (selection c')) = Inr w3"
       "reorderPass c' w3 (nodesIds d) = Inr w'"
    by auto
  note d = duplicatePass_frame[OF p(1)]
  from createPass_copyNodes[OF p(2)] obtain c2 where
    c: "copyNodes (isMigration c1 w1) c1 w1 [] (copied c1 w1) = Inr (c2, w2, ins)"
       "nodeIdsMap c' = nodeIdsMap c2" "sameCmd (c2\<lparr>hasNodeMap := hasNodeMap c'\<rparr>) c'"
       "hasNodeMap c' = (hasNodeMap c2 \<or> isMigration c1 w1)"
    by blast
  have dc: "destSceneId c1 = destSceneId c" "selection c1 = selection c"
    "hasNodeMap c1 = hasNodeMap c"
    using d(5) by (simp_all add: sameCmd_def)
  have s1: "scenes w1 (destSceneId c1) = Some d" using d(1) dc assms(2) by simp
  from copyNodes_frame[OF c(1) s1] obtain d2 where
    f: "sameCmd c1 c2" "scenes w2 = (scenes w1)(destSceneId c1 \<mapsto> d2)"
       "nodesIds d2 = rev ins @ nodesIds d" "\<forall>j. j \<notin> set ins \<longrightarrow> nodes d2 j = nodes d j"
    by auto
  have dc': "destSceneId c' = destSceneId c" "selection c' = selection c"
    "hasNodeMap c2 = hasNodeMap c"
    using f(1) c(3) dc by (simp_all add: sameCmd_def)
  have s2: "scenes w2 (destSceneId c') = Some d2" using f(2) dc dc' by simp
  from relinkNodes_frame[OF p(3) s2] obtain d3 where
    g: "scenes w3 = (scenes w2)(destSceneId c' \<mapsto> d3)" "nodesIds d3 = nodesIds d2"
       "sceneNodeMaps w3 = sceneNodeMaps w2" "sameServices w2 w3"
    by blast
  have "executeStages c w d c' w' ins c1 w1 c2 w2 w3 d2 d3"
    unfolding executeStages_def using p c d dc dc' f g by simp
  then show ?thesis by blast
qed

lemma newNode_hasNodeMap: "newNode mig (c\<lparr>hasNodeMap := x\<rparr>) w n i = newNode mig c w n i"
  by (simp add: newNode_def resolveDisplay_def resolveSource_def split: option.split)

lemma copied_subset: "set (copied c w) \<subseteq> set (sel_nodes (selection c))"
  by (auto simp: copied_def getNodes_def getNodesFor_def)

text \<open>
  The copy of a node \<open>n\<close> of the creation pass as execute() leaves it in the destination
  scene, when the created ids are pairwise distinct.
\<close>

lemma execute_copy:
  assumes "execute c w = Inr (c', w', ins)" and "scenes w (destSceneId c) = Some d"
    and "distinct ins"
    and "fst ` set (nodeIdsMap c) \<subseteq> node_id ` set (copied c w)"
    and "distinct (map fst (nodeIdsMap c))"
    and "distinct (map node_id (sel_nodes (selection c)))"
    and "n \<in> set (copied c w)"
  shows "\<exists>k. map_of (nodeIdsMap c') (node_id n) = Some k \<and> k \<in> set ins
     \<and> snd ` set (nodeIdsMap c') = set ins
     \<and> getNode w' (destSceneId c) (Some k) =
         Some ((newNode (isMigration c w) c' w n k)\<lparr>parentId :=
                 (if truthy (map_of (nodeIdsMap c') (propKey (parentId n)))
                  then map_of (nodeIdsMap c') (propKey (parentId n)) else None)\<rparr>)"
proof -
  from execute_before_reorder[OF assms(1,2)] obtain c1 w1 c2 w2 w3 d2 d3 where
    "executeStages c w d c' w' ins c1 w1 c2 w2 w3 d2 d3"
    by blast
  then have e: "copyNodes (isMigration c1 w1) c1 w1 [] (copied c1 w1) = Inr (c2, w2, ins)"
      "nodeIdsMap c' = nodeIdsMap c2" "destSceneId c' = destSceneId c"
      "selection c' = selection c" "scenes w1 = scenes w"
      "sameCmd (c\<lparr>sourceIdsMap := sourceIdsMap c1\<rparr>) c1" "nodeIdsMap c1 = nodeIdsMap c"
      "sameServices w w1"
      "scenes w2 = (scenes w)(destSceneId c \<mapsto> d2)"
      "relinkNodes c' w2 (getNodes (selection c)) = Inr w3"
      "scenes w3 = (scenes w)(destSceneId c \<mapsto> d3)"
      "reorderPass c' w3 (nodesIds d) = Inr w'"
      "sameCmd (c2\<lparr>hasNodeMap := hasNodeMap c'\<rparr>) c'"
    unfolding executeStages_def by blast+
  let ?T = "nodeIdsMap c'"
  let ?mig = "isMigration c w"
  let ?f = "\<lambda>n::node. the (map_of ?T (node_id n))"
  have dc1: "destSceneId c1 = destSceneId c" using e(6) by (simp add: sameCmd_def)
  have s1: "scenes w1 (destSceneId c1) = Some d" using e(5) dc1 assms(2) by simp
  have cp: "copied c1 w1 = copied c w" "isMigration c1 w1 = ?mig"
    using copied_cong[OF e(6) e(8)] by simp_all
  have vals: "snd ` set ?T = set ins"
    using copyNodes_values[OF e(1) s1] assms(4,5) e(2,7) cp by simp
  have s2: "scenes w2 (destSceneId c1) = Some d2" using e(9) dc1 by simp
  from copyNodes_table[OF e(1) s1] have
    tb: "ins = map ?f (copied c w)" "\<forall>n\<in>set (copied c w). map_of ?T (node_id n) \<noteq> None"
        "fst ` set ?T = node_id ` set (copied c w)"
    using e(2,7) cp assms(4) by auto
  from copyNodes_frame[OF e(1) s1] have c12: "sameCmd c1 c2" by blast
  have nn: "\<And>m j. newNode ?mig c' w m j = newNode (isMigration c1 w1) c1 w1 m j"
  proof -
    fix m j
    have "newNode ?mig c' w1 m j = newNode ?mig (c2\<lparr>hasNodeMap := hasNodeMap c'\<rparr>) w1 m j"
      by (rule newNode_cong[OF e(13)]) simp
    also have "\<dots> = newNode ?mig c2 w1 m j" by (rule newNode_hasNodeMap)
    also have "\<dots> = newNode ?mig c1 w1 m j" by (rule newNode_cong[OF c12]) simp
    finally have a: "newNode ?mig c' w1 m j = newNode ?mig c1 w1 m j" .
    have "newNode ?mig c' w1 m j = newNode ?mig c' w m j"
      by (rule newNode_cong[OF _ e(8)]) simp
    with a cp(2) show "newNode ?mig c' w m j = newNode (isMigration c1 w1) c1 w1 m j" by simp
  qed
  from copyNodes_nodes[OF e(1) s1 _ s2] assms(3) e(2) cp have
    nd: "\<forall>i\<in>set ins. \<exists>n\<in>set (copied c w). nodes d2 i = Some (newNode ?mig c' w n i)"
        "\<forall>n\<in>set (copied c w). nodes d2 (?f n) = Some (newNode ?mig c' w n (?f n))"
    by (simp_all add: nn)
  have own2: "\<forall>k\<in>snd ` set ?T. \<forall>m. nodes d2 k = Some m \<longrightarrow> node_id m = k"
  proof (intro ballI allI impI)
    fix k m assume kk: "k \<in> snd ` set ?T" and m: "nodes d2 k = Some m"
    from kk vals have "k \<in> set ins" by simp
    with nd(1) obtain a where "nodes d2 k = Some (newNode ?mig c' w a k)" by blast
    with m have "m = newNode ?mig c' w a k" by simp
    then show "node_id m = k" by (simp add: newNode_def)
  qed
  have inj: "\<forall>a\<in>set (sel_nodes (selection c)). \<forall>b\<in>set (sel_nodes (selection c)).
       map_of ?T (node_id a) = map_of ?T (node_id b) \<longrightarrow> map_of ?T (node_id a) \<noteq> None
         \<longrightarrow> node_id a = node_id b"
  proof (intro ballI impI)
    fix a b :: node
    assume eq: "map_of ?T (node_id a) = map_of ?T (node_id b)" and ne: "map_of ?T (node_id a) \<noteq> None"
    from ne have "node_id a \<in> fst ` set ?T" by (simp add: map_of_eq_None_iff)
    with tb(3) obtain a' where a': "a' \<in> set (copied c w)" "node_id a' = node_id a" by auto
    from ne eq have "node_id b \<in> fst ` set ?T" by (simp add: map_of_eq_None_iff)
    with tb(3) obtain b' where b': "b' \<in> set (copied c w)" "node_id b' = node_id b" by auto
    from assms(3) tb(1) have "inj_on ?f (set (copied c w))" by (simp add: distinct_map)
    moreover have "?f a' = ?f b'" using a' b' eq by simp
    ultimately have "a' = b'" using a'(1) b'(1) by (auto dest: inj_onD)
    with a' b' show "node_id a = node_id b" by simp
  qed
  from tb(2) assms(7) obtain k where k: "map_of ?T (node_id n) = Some k" by auto
  with tb(1) assms(7) have kin: "k \<in> set ins" by force
  from nd(2) assms(7) k have nk: "nodes d2 k = Some (newNode ?mig c' w n k)" by force
  have s2': "scenes w2 (destSceneId c') = Some d2" using e(9) e(3) by simp
  have s3': "scenes w3 (destSceneId c') = Some d3" using e(11) e(3) by simp
  have nsel: "n \<in> set (getNodes (selection c))"
    using assms(7) copied_subset by (auto simp: getNodes_def)
  from relinkNodes_parent[OF e(10)[folded e(4)] s2' s3' own2] assms(6) inj e(4) nsel k nk
  have n3: "nodes d3 k = Some ((newNode ?mig c' w n k)\<lparr>parentId :=
             (if truthy (map_of ?T (propKey (parentId n)))
                 \<and> nodes d2 (the (map_of ?T (propKey (parentId n)))) \<noteq> None
              then map_of ?T (propKey (parentId n)) else parentId (newNode ?mig c' w n k))\<rparr>)"
    by (simp add: getNodes_def)
  have pe: "truthy (map_of ?T (propKey (parentId n)))
      \<Longrightarrow> nodes d2 (the (map_of ?T (propKey (parentId n)))) \<noteq> None"
  proof -
    assume "truthy (map_of ?T (propKey (parentId n)))"
    then obtain x where x: "map_of ?T (propKey (parentId n)) = Some x"
      by (auto simp: truthy_def split: option.splits)
    then have "x \<in> snd ` set ?T" by (force dest: map_of_SomeD)
    with vals nd(1) x show ?thesis by auto
  qed
  have p0: "parentId (newNode ?mig c' w n k) = None" by (simp add: newNode_def)
  from reorderPass_Inr[OF e(12)] obtain s where
    s: "scenes w3 (sceneId (selection c')) = Some s" by auto
  from reorderPass_scenes[OF e(12) s s3'] e(3) have
    "getNode w' (destSceneId c) (Some k) = nodes d3 k"
    by (simp add: getNode_def)
  with n3 pe p0 k kin vals show ?thesis by auto
qed

subsection \<open>Node-map entries of the reordering pass\<close>

lemma nodeMapStep_nodeMap:
  "sceneNodeMaps (nodeMapStep c w i) (destSceneId c) =
     (if getNodeDisplay w i (sceneId (selection c)) = horizontal
      then AList.update (map_of (nodeIdsMap c) i)
             (map_of (nodeIdsMap c) (propKey (getVerticalNodeId w i (sceneId (selection c)))))
             (sceneNodeMaps w (destSceneId c))
      else sceneNodeMaps w (destSceneId c))"
  by (simp add: nodeMapStep_def createNodeMapEntry_def Let_def)

lemma nodeMapStep_display:
  "getNodeDisplay (nodeMapStep c w i) = getNodeDisplay w"
  by (simp add: nodeMapStep_def createNodeMapEntry_def Let_def getNodeDisplay_def fun_eq_iff)

text \<open>A key that no step writes keeps its entry.\<close>

lemma nodeMapSteps_other_key:
  assumes "\<forall>i\<in>set is. map_of (nodeIdsMap c) i \<noteq> key"
  shows "map_of (sceneNodeMaps (nodeMapSteps c w is) (destSceneId c)) key
           = map_of (sceneNodeMaps w (destSceneId c)) key"
  using assms
proof (induction "is" arbitrary: w)
  case Nil
  then show ?case by simp
next
  case (Cons i "is")
  then have "map_of (sceneNodeMaps (nodeMapSteps c (nodeMapStep c w i) is) (destSceneId c)) key
           = map_of (sceneNodeMaps (nodeMapStep c w i) (destSceneId c)) key" by simp
  also have "\<dots> = map_of (sceneNodeMaps w (destSceneId c)) key"
    using Cons.prems by (auto simp: nodeMapStep_nodeMap update_conv')
  finally show ?case by simp
qed

lemma nodeMapSteps_distinct:
  assumes "distinct (map fst (sceneNodeMaps w (destSceneId c)))"
  shows "distinct (map fst (sceneNodeMaps (nodeMapSteps c w is) (destSceneId c)))"
  using assms
  by (induction "is" arbitrary: w) (simp_all add: nodeMapStep_nodeMap distinct_update)

text \<open>
  The entry of a horizontal node \<open>h\<close> of the walk: the translation of \<open>h\<close> is paired with
  the translation of its vertical twin, when no other horizontal node of the walk has the
  translation of \<open>h\<close> and no step overwrites the entry of \<open>h\<close> in the source scene's map.
\<close>

lemma nodeMapSteps_entry:
  assumes "getNodeDisplay w h (sceneId (selection c)) = horizontal"
    and "\<forall>i\<in>set is. getNodeDisplay w i (sceneId (selection c)) = horizontal
           \<longrightarrow> map_of (nodeIdsMap c) i = map_of (nodeIdsMap c) h \<longrightarrow> i = h"
    and "sceneId (selection c) \<noteq> destSceneId c \<or> (\<forall>i\<in>set is. map_of (nodeIdsMap c) i \<noteq> Some h)"
  shows "map_of (sceneNodeMaps (nodeMapSteps c w is) (destSceneId c)) (map_of (nodeIdsMap c) h)
           = (if h \<in> set is
              then Some (map_of (nodeIdsMap c)
                          (propKey (getVerticalNodeId w h (sceneId (selection c)))))
              else map_of (sceneNodeMaps w (destSceneId c)) (map_of (nodeIdsMap c) h))"
  using assms
proof (induction "is" arbitrary: w)
  case Nil
  then show ?case by simp
next
  case (Cons i "is")
  let ?src = "sceneId (selection c)"
  let ?T = "map_of (nodeIdsMap c)"
  let ?w1 = "nodeMapStep c w i"
  have v1: "getVerticalNodeId ?w1 h ?src = getVerticalNodeId w h ?src"
  proof (cases "?src = destSceneId c")
    case False
    then show ?thesis by (simp add: getVerticalNodeId_def nodeMapStep_frame)
  next
    case True
    with Cons.prems(3) have "?T i \<noteq> Some h" by simp
    with True show ?thesis
      by (simp add: getVerticalNodeId_def nodeMapStep_nodeMap update_conv')
  qed
  have a1: "getNodeDisplay ?w1 h ?src = horizontal"
    using Cons.prems(1) by (simp add: nodeMapStep_display)
  have a2: "\<forall>j\<in>set is. getNodeDisplay ?w1 j ?src = horizontal \<longrightarrow> ?T j = ?T h \<longrightarrow> j = h"
    using Cons.prems(2) by (simp add: nodeMapStep_display)
  have a3: "?src \<noteq> destSceneId c \<or> (\<forall>j\<in>set is. ?T j \<noteq> Some h)"
    using Cons.prems(3) by auto
  note ih = Cons.IH[OF a1 a2 a3]
  show ?case
  proof (cases "h \<in> set is")
    case True
    with ih v1 show ?thesis by simp
  next
    case False
    have "map_of (sceneNodeMaps ?w1 (destSceneId c)) (?T h)
            = (if i = h then Some (?T (propKey (getVerticalNodeId w h ?src)))
               else map_of (sceneNodeMaps w (destSceneId c)) (?T h))"
    proof (cases "getNodeDisplay w i ?src = horizontal")
      case True
      with Cons.prems(2) have "?T i = ?T h \<longrightarrow> i = h" by simp
      with True show ?thesis by (auto simp: nodeMapStep_nodeMap update_conv')
    next
      case False
      with Cons.prems(1) have "i \<noteq> h" by auto
      with False show ?thesis by (simp add: nodeMapStep_nodeMap)
    qed
    with ih False show ?thesis by auto
  qed
qed

lemma reorderPass_nodeMaps:
  assumes "reorderPass c w init = Inr w'" and "scenes w (sceneId (selection c)) = Some s"
  shows "sceneNodeMaps w' =
           sceneNodeMaps (if hasNodeMap c then nodeMapSteps c w (nodesIds s) else w)"
  using assms by (auto simp: reorderPass_def Let_def setNodesOrder_def getNodesIds_def)

lemma copyNodes_nodeMap_distinct:
  assumes "copyNodes mig c w ins0 ns = Inr (c', w', ins')"
    and "scenes w (destSceneId c) = Some d"
    and "distinct (map fst (sceneNodeMaps w (destSceneId c)))"
  shows "distinct (map fst (sceneNodeMaps w' (destSceneId c)))"
  using assms
proof (induction ns arbitrary: c w ins0 d)
  case Nil
  then show ?case by simp
next
  case (Cons n ns)
  let ?i = "allocId c w n"
  let ?c1 = "c\<lparr>nodeIdsMap := AList.update (node_id n) ?i (nodeIdsMap c)\<rparr>"
  let ?w1 = "copyWorld mig c w d n"
  have r: "copyNodes mig ?c1 ?w1 (ins0 @ [?i]) ns = Inr (c', w', ins')"
    using copyNodes_Cons[OF Cons.prems(1,2)] .
  have s1: "scenes ?w1 (destSceneId ?c1) = Some
     (d\<lparr>nodes := (nodes d)(?i \<mapsto> newNode mig c w n ?i), nodesIds := ?i # nodesIds d\<rparr>)"
    by (simp add: copyWorld_fields)
  have "distinct (map fst (sceneNodeMaps ?w1 (destSceneId ?c1)))"
    using Cons.prems(3) by (simp add: copyWorld_fields distinct_update)
  from Cons.IH[OF r s1 this] show ?case by simp
qed

lemma filter_key_single:
  "distinct (map fst xs) \<Longrightarrow> map_of xs k = Some v \<Longrightarrow> filter (\<lambda>e. fst e = k) xs = [(k, v)]"
proof (induction xs)
  case Nil
  then show ?case by simp
next
  case (Cons x xs)
  show ?case
  proof (cases "fst x = k")
    case True
    with Cons.prems have "x = (k, v)" by (cases x) simp
    moreover have "filter (\<lambda>e. fst e = k) xs = []"
    proof -
      from True Cons.prems(1) have "k \<notin> fst ` set xs" by simp
      then have "\<forall>e\<in>set xs. fst e \<noteq> k" by (metis image_eqI)
      then show ?thesis by (simp add: filter_empty_conv)
    qed
    ultimately show ?thesis by simp
  next
    case False
    with Cons show ?thesis by (cases x) auto
  qed
qed

text \<open>The table after execute(), when the created ids are pairwise distinct.\<close>

lemma execute_table:
  assumes "execute c w = Inr (c', w', ins)" and "scenes w (destSceneId c) = Some d"
    and "distinct ins"
    and "fst ` set (nodeIdsMap c) \<subseteq> node_id ` set (copied c w)"
    and "distinct (map fst (nodeIdsMap c))"
  shows "snd ` set (nodeIdsMap c') = set ins
     \<and> (\<forall>a b. map_of (nodeIdsMap c') a = map_of (nodeIdsMap c') b
            \<longrightarrow> map_of (nodeIdsMap c') a \<noteq> None \<longrightarrow> a = b)
     \<and> (\<forall>n\<in>set (copied c w). map_of (nodeIdsMap c') (node_id n) \<noteq> None)"
proof -
  from execute_before_reorder[OF assms(1,2)] obtain c1 w1 c2 w2 w3 d2 d3 where
    "executeStages c w d c' w' ins c1 w1 c2 w2 w3 d2 d3"
    by blast
  then have e: "copyNodes (isMigration c1 w1) c1 w1 [] (copied c1 w1) = Inr (c2, w2, ins)"
      "nodeIdsMap c' = nodeIdsMap c2" "scenes w1 = scenes w"
      "sameCmd (c\<lparr>sourceIdsMap := sourceIdsMap c1\<rparr>) c1" "nodeIdsMap c1 = nodeIdsMap c"
      "sameServices w w1"
    unfolding executeStages_def by blast+
  let ?T = "nodeIdsMap c'"
  let ?f = "\<lambda>n::node. the (map_of ?T (node_id n))"
  have dc1: "destSceneId c1 = destSceneId c" using e(4) by (simp add: sameCmd_def)
  have s1: "scenes w1 (destSceneId c1) = Some d" using e(3) dc1 assms(2) by simp
  have cp: "copied c1 w1 = copied c w" using copied_cong[OF e(4) e(6)] by simp
  have vals: "snd ` set ?T = set ins"
    using copyNodes_values[OF e(1) s1] assms(4,5) e(2,5) cp by simp
  from copyNodes_table[OF e(1) s1] have
    tb: "ins = map ?f (copied c w)" "\<forall>n\<in>set (copied c w). map_of ?T (node_id n) \<noteq> None"
        "fst ` set ?T = node_id ` set (copied c w)"
    using e(2,5) cp assms(4) by auto
  have inj: "\<forall>a b. map_of ?T a = map_of ?T b \<longrightarrow> map_of ?T a \<noteq> None \<longrightarrow> a = b"
  proof (intro allI impI)
    fix a b
    assume eq: "map_of ?T a = map_of ?T b" and ne: "map_of ?T a \<noteq> None"
    from ne have "a \<in> fst ` set ?T" by (simp add: map_of_eq_None_iff)
    with tb(3) obtain a' where a': "a' \<in> set (copied c w)" "node_id a' = a" by auto
    from ne eq have "b \<in> fst ` set ?T" by (simp add: map_of_eq_None_iff)
    with tb(3) obtain b' where b': "b' \<in> set (copied c w)" "node_id b' = b" by auto
    from assms(3) tb(1) have "inj_on ?f (set (copied c w))" by (simp add: distinct_map)
    moreover have "?f a' = ?f b'" using a' b' eq by simp
    ultimately have "a' = b'" using a'(1) b'(1) by (auto dest: inj_onD)
    with a' b' show "a = b" by simp
  qed
  from vals inj tb(2) show ?thesis by blast
qed

subsection \<open>The ids of a new command\<close>

text \<open>
  With no hint in the table for the nodes of the loop, the creation pass takes the ids of
  its nodes from the supply, in order.
\<close>

lemma upt_shift: "[k ..< k + Suc l] = k # [Suc k ..< Suc k + l]"
  by (metis add_Suc_right add_Suc less_add_Suc1 upt_conv_Cons)

lemma copyNodes_fresh:
  assumes "copyNodes mig c w ins0 ns = Inr (c', w', ins')"
    and "scenes w (destSceneId c) = Some d"
    and "distinct (map node_id ns)"
    and "fst ` set (nodeIdsMap c) \<inter> node_id ` set ns = {}"
  shows "ins' = ins0 @ map (uuid w) [uuidCount w ..< uuidCount w + length ns]"
  using assms
proof (induction ns arbitrary: c w ins0 d)
  case Nil
  then show ?case by simp
next
  case (Cons n ns)
  let ?i = "allocId c w n"
  let ?c1 = "c\<lparr>nodeIdsMap := AList.update (node_id n) ?i (nodeIdsMap c)\<rparr>"
  let ?w1 = "copyWorld mig c w d n"
  have r: "copyNodes mig ?c1 ?w1 (ins0 @ [?i]) ns = Inr (c', w', ins')"
    using copyNodes_Cons[OF Cons.prems(1,2)] .
  have s1: "scenes ?w1 (destSceneId ?c1) = Some
     (d\<lparr>nodes := (nodes d)(?i \<mapsto> newNode mig c w n ?i), nodesIds := ?i # nodesIds d\<rparr>)"
    by (simp add: copyWorld_fields)
  have "node_id n \<notin> fst ` set (nodeIdsMap c)" using Cons.prems(4) by auto
  then have none: "map_of (nodeIdsMap c) (node_id n) = None" by (simp add: map_of_eq_None_iff)
  then have i: "?i = uuid w (uuidCount w)" by (simp add: allocId_def)
  have u1: "uuid ?w1 = uuid w" "uuidCount ?w1 = Suc (uuidCount w)"
    using none by (simp_all add: copyWorld_def)
  have d1: "distinct (map node_id ns)" using Cons.prems(3) by simp
  have k1: "fst ` set (nodeIdsMap ?c1) \<inter> node_id ` set ns = {}"
    using Cons.prems(3,4) by (auto simp: dom_update)
  from Cons.IH[OF r s1 d1 k1] have
    "ins' = (ins0 @ [uuid w (uuidCount w)])
              @ map (uuid w) [Suc (uuidCount w) ..< Suc (uuidCount w) + length ns]"
    by (simp only: i u1)
  then have "ins' = ins0 @ map (uuid w) [uuidCount w ..< uuidCount w + Suc (length ns)]"
    by (simp only: upt_shift list.map append_assoc append.simps)
  then show ?case by simp
qed

text \<open>
  A new command (its table is empty) over a selection that lists each node once creates
  pairwise distinct ids that are not in use, when the supply is injective and yields no
  id in use.
\<close>

lemma new_command_ids:
  assumes "execute c w = Inr (c', w', ins)" and "scenes w (destSceneId c) = Some d"
    and "nodeIdsMap c = []"
    and "distinct (map node_id (sel_nodes (selection c)))"
    and "inj_on (uuid w) {uuidCount w..}"
    and "\<forall>j\<ge>uuidCount w. uuid w j \<notin> U"
  shows "distinct ins \<and> set ins \<inter> U = {}"
proof -
  from execute_before_reorder[OF assms(1,2)] obtain c1 w1 c2 w2 w3 d2 d3 where
    "executeStages c w d c' w' ins c1 w1 c2 w2 w3 d2 d3"
    by blast
  then have e: "duplicatePass c w = Inr (c1, w1)"
      "copyNodes (isMigration c1 w1) c1 w1 [] (copied c1 w1) = Inr (c2, w2, ins)"
      "scenes w1 = scenes w" "sameCmd (c\<lparr>sourceIdsMap := sourceIdsMap c1\<rparr>) c1"
      "nodeIdsMap c1 = nodeIdsMap c" "sameServices w w1"
    unfolding executeStages_def by blast+
  have dc1: "destSceneId c1 = destSceneId c" using e(4) by (simp add: sameCmd_def)
  have s1: "scenes w1 (destSceneId c1) = Some d" using e(3) dc1 assms(2) by simp
  have cp: "copied c1 w1 = copied c w" using copied_cong[OF e(4) e(6)] by simp
  have dn: "distinct (map node_id (copied c w))"
    using assms(4) by (auto simp: copied_def getNodes_def getNodesFor_def distinct_map_filter)
  have u: "uuid w1 = uuid w" using e(6) by (simp add: sameServices_def)
  have ge: "uuidCount w \<le> uuidCount w1" using duplicatePass_frame(4)[OF e(1)] .
  let ?js = "[uuidCount w1 ..< uuidCount w1 + length (copied c w)]"
  from copyNodes_fresh[OF e(2) s1] cp dn e(5) assms(3) u have
    ins: "ins = map (uuid w) ?js" by simp
  have sub: "set ?js \<subseteq> {uuidCount w..}" using ge by auto
  have "inj_on (uuid w) (set ?js)" using assms(5) sub by (rule inj_on_subset)
  then have "distinct ins" using ins by (simp add: distinct_map)
  moreover have "set ins \<inter> U = {}" using ins sub assms(6) by auto
  ultimately show ?thesis by simp
qed

text \<open>
  Claim C1. After execute() the order of the destination scene is the order of the source
  scene mapped through the node-id table, the ids the table does not translate dropped,
  followed by the order the destination scene had before: every created id stands before
  every id that was there. When the source scene is the destination scene itself, the
  order read is the one before execute(), provided no created id is an id the table
  translates.
\<close>

theorem execute_node_order:
  assumes "execute c w = Inr (c', w', ins)"
    and "scenes w (destSceneId c) = Some d" and "scenes w (sceneId (selection c)) = Some s"
    and "sceneId (selection c) \<noteq> destSceneId c \<or> set ins \<inter> fst ` set (nodeIdsMap c') = {}"
  shows "\<exists>d'. scenes w' (destSceneId c) = Some d'
           \<and> getNodesIds d' = compactIds (map (map_of (nodeIdsMap c')) (getNodesIds s)) @ getNodesIds d"
proof -
  from execute_before_reorder[OF assms(1,2)] obtain c1 w1 c2 w2 w3 d2 d3 where
    "executeStages c w d c' w' ins c1 w1 c2 w2 w3 d2 d3"
    by blast
  then have e: "destSceneId c' = destSceneId c" "selection c' = selection c"
       "nodesIds d2 = rev ins @ nodesIds d"
       "scenes w3 = (scenes w)(destSceneId c \<mapsto> d3)" "nodesIds d3 = nodesIds d2"
       "reorderPass c' w3 (nodesIds d) = Inr w'"
    by (simp_all add: executeStages_def)
  let ?T = "map_of (nodeIdsMap c')"
  have d3: "scenes w3 (destSceneId c') = Some d3" using e by simp
  show ?thesis
  proof (cases "sceneId (selection c) = destSceneId c")
    case False
    then have s3: "scenes w3 (sceneId (selection c')) = Some s" using e assms(3) by simp
    from reorderPass_scenes[OF e(6) s3 d3] e(1) show ?thesis
      by (simp add: getNodesIds_def)
  next
    case True
    with assms(2,3) have sd: "s = d" by simp
    from True e have s3: "scenes w3 (sceneId (selection c')) = Some d3" by simp
    from True assms(4) have "\<forall>i\<in>set ins. ?T i = None"
      by (auto simp: map_of_eq_None_iff)
    then have "compactIds (map ?T (rev ins)) = []"
      by (intro compactIds_none) simp
    then have "compactIds (map ?T (nodesIds d3)) = compactIds (map ?T (nodesIds d))"
      using e(3,5) by (simp add: compactIds_append)
    with reorderPass_scenes[OF e(6) s3 d3] e(1) sd show ?thesis
      by (simp add: getNodesIds_def)
  qed
qed

theorem execute_node_order_witness:
  "execute exMigrate exWorld = Inr exMigrated
   \<and> sceneId (selection exMigrate) \<noteq> destSceneId exMigrate
   \<and> (\<exists>d'. scenes (fst (snd exMigrated)) ''B'' = Some d'
         \<and> getNodesIds d' = [''u+++'', ''u++'', ''u+'', ''x''])"
proof -
  have d: "scenes exWorld (destSceneId exMigrate) = Some exSceneB"
    and s: "scenes exWorld (sceneId (selection exMigrate)) = Some exSceneA"
    and n: "sceneId (selection exMigrate) \<noteq> destSceneId exMigrate"
    by (simp_all add: exMigrate_def CopyNodesCommand_def exWorld_def exSel_def)
  from n have n': "sceneId (selection exMigrate) \<noteq> destSceneId exMigrate
     \<or> set (snd (snd exMigrated)) \<inter> fst ` set (nodeIdsMap (fst exMigrated)) = {}" by simp
  from execute_node_order[OF exMigrated_facts(1) d s n'] obtain d' where
    "scenes (fst (snd exMigrated)) (destSceneId exMigrate) = Some d'"
    "getNodesIds d' = compactIds (map (map_of (nodeIdsMap (fst exMigrated))) (getNodesIds exSceneA))
                        @ getNodesIds exSceneB"
    by blast
  then show ?thesis using exMigrated_facts(1) n
    by (simp add: exMigrated_facts(2) exMigrate_def CopyNodesCommand_def getNodesIds_def
        exSceneA_def exSceneB_def)
qed

text \<open>
  Relinking the copied nodes. For a node \<open>n\<close> that execute() copies, when execute()
  returns, the relinking step raises no error when the table does not translate the parent id of \<open>n\<close>, and after execute() the parent of the
  copy is the table's translation of the parent id of \<open>n\<close>: none (the copy is a root) when
  the parent was not copied, the copy of the parent otherwise. The ids execute() got
  from createFolder and addSource are pairwise distinct and non-empty, the selection lists
  each node once, and every key the table held at the start is the id of a node copied in
  this run. For a new command the conditions on the ids follow from an injective supply
  of non-empty ids, by \<open>new_command_ids\<close>.
\<close>

theorem relink_parents:
  assumes "execute c w = Inr (c', w', ins)" and "scenes w (destSceneId c) = Some d"
    and "distinct ins" and "[] \<notin> set ins"
    and "fst ` set (nodeIdsMap c) \<subseteq> node_id ` set (copied c w)"
    and "distinct (map fst (nodeIdsMap c))"
    and "distinct (map node_id (sel_nodes (selection c)))"
    and "n \<in> set (copied c w)"
  shows "(map_of (nodeIdsMap c') (propKey (parentId n)) = None
            \<longrightarrow> (\<forall>v. relinkNode c' v n = Inr v))
       \<and> (\<exists>m. getNode w' (destSceneId c) (map_of (nodeIdsMap c') (node_id n)) = Some m
              \<and> parentId m = map_of (nodeIdsMap c') (propKey (parentId n)))"
proof -
  let ?pk = "map_of (nodeIdsMap c') (propKey (parentId n))"
  have a: "?pk = None \<longrightarrow> (\<forall>v. relinkNode c' v n = Inr v)"
    by (simp add: relinkNode_def truthy_def Let_def)
  from execute_copy[OF assms(1,2,3,5,6,7,8)] obtain k where
    k: "map_of (nodeIdsMap c') (node_id n) = Some k" "snd ` set (nodeIdsMap c') = set ins"
       "getNode w' (destSceneId c) (Some k) =
          Some ((newNode (isMigration c w) c' w n k)\<lparr>parentId :=
                  (if truthy ?pk then ?pk else None)\<rparr>)"
    by blast
  have "(if truthy ?pk then ?pk else None) = ?pk"
  proof (cases ?pk)
    case None
    then show ?thesis by simp
  next
    case (Some x)
    then have "x \<in> snd ` set (nodeIdsMap c')" by (force dest: map_of_SomeD)
    with k(2) assms(4) have "x \<noteq> []" by auto
    with Some show ?thesis by (simp add: truthy_def)
  qed
  with k(1,3) have "\<exists>m. getNode w' (destSceneId c) (map_of (nodeIdsMap c') (node_id n)) = Some m
              \<and> parentId m = ?pk" by simp
  with a show ?thesis by blast
qed

theorem relink_parents_witness:
  "execute exMigrate exWorld = Inr exMigrated
   \<and> exItem ''i'' ''s1'' (Some ''f'') \<in> set (copied exMigrate exWorld)
   \<and> exItem ''j'' ''s2'' (Some ''g'') \<in> set (copied exMigrate exWorld)
   \<and> (\<exists>m. getNode (fst (snd exMigrated)) ''B'' (Some ''u+'') = Some m
          \<and> parentId m = Some ''u++'')
   \<and> (\<forall>v. relinkNode (fst exMigrated) v (exItem ''j'' ''s2'' (Some ''g'')) = Inr v)
   \<and> (\<exists>m. getNode (fst (snd exMigrated)) ''B'' (Some ''u+++'') = Some m
          \<and> parentId m = None)"
proof -
  have d: "scenes exWorld (destSceneId exMigrate) = Some exSceneB"
    and t: "nodeIdsMap exMigrate = []" and ds: "destSceneId exMigrate = ''B''"
    by (simp_all add: exMigrate_def CopyNodesCommand_def exWorld_def)
  have i1: "distinct (snd (snd exMigrated))" and i2: "[] \<notin> set (snd (snd exMigrated))"
    by (simp_all add: exMigrated_facts(4))
  have k: "fst ` set (nodeIdsMap exMigrate) \<subseteq> node_id ` set (copied exMigrate exWorld)"
    and q: "distinct (map fst (nodeIdsMap exMigrate))"
    using t by simp_all
  have s: "distinct (map node_id (sel_nodes (selection exMigrate)))"
    by (simp add: exMigrate_def CopyNodesCommand_def exSel_def exItem_def exFolder_def)
  have cp: "copied exMigrate exWorld
              = [exItem ''i'' ''s1'' (Some ''f''), exFolder ''f'' None, exItem ''j'' ''s2'' (Some ''g'')]"
    by (simp add: copied_def isMigration_def getNodes_def exMigrate_def CopyNodesCommand_def
        views_hasNodeMap_def exWorld_def exSel_def)
  have ni: "exItem ''i'' ''s1'' (Some ''f'') \<in> set (copied exMigrate exWorld)"
    and nj: "exItem ''j'' ''s2'' (Some ''g'') \<in> set (copied exMigrate exWorld)"
    by (simp_all add: cp)
  from relink_parents[OF exMigrated_facts(1) d i1 i2 k q s ni]
       relink_parents[OF exMigrated_facts(1) d i1 i2 k q s nj]
       exMigrated_facts(1) ni nj
  show ?thesis
    by (simp add: exMigrated_facts(2) ds exItem_def propKey_def)
qed

text \<open>
  The migration on a command whose field \<^verbatim>\<open>hasNodeMap\<close> is still false (a command that
  has not run a migration before). In dual-output mode, when the forced display is
  vertical, execute() copies every node of the selection; for each
  of them the node map of the destination scene holds exactly one entry under the id of
  the original, and it links the original to the copy; and the copy of an item stands at
  position (0, 0). The ids execute() got from createFolder and addSource are pairwise
  distinct and are not ids of the originals, the selection lists each node once, the node
  map of the destination has one entry per key, and every key the table held at the start
  is the id of a node of the selection. For a new command the conditions on the ids
  follow from an injective supply that yields no id in use, by \<open>new_command_ids\<close>.
\<close>

theorem migration_node_map:
  assumes "execute c w = Inr (c', w', ins)" and "scenes w (destSceneId c) = Some d"
    and "dualOutputMode w" and "\<not> hasNodeMap c" and "display c = Some vertical"
    and "distinct ins" and "set ins \<inter> node_id ` set (sel_nodes (selection c)) = {}"
    and "fst ` set (nodeIdsMap c) \<subseteq> node_id ` set (sel_nodes (selection c))"
    and "distinct (map fst (nodeIdsMap c))"
    and "distinct (map node_id (sel_nodes (selection c)))"
    and "distinct (map fst (sceneNodeMaps w (destSceneId c)))"
  shows "length ins = length (sel_nodes (selection c))
       \<and> (\<forall>n\<in>set (sel_nodes (selection c)). \<exists>k m.
             map_of (nodeIdsMap c') (node_id n) = Some k \<and> k \<in> set ins
           \<and> filter (\<lambda>e. fst e = Some (node_id n)) (sceneNodeMaps w' (destSceneId c))
                = [(Some (node_id n), Some k)]
           \<and> getNode w' (destSceneId c) (Some k) = Some m
           \<and> (\<not> folder n \<longrightarrow> position m = (0, 0)))"
proof -
  have mig: "isMigration c w" using assms(3,4) by (simp add: isMigration_def)
  then have cp: "copied c w = sel_nodes (selection c)" by (simp add: copied_def getNodes_def)
  from execute_before_reorder[OF assms(1,2)] obtain c1 w1 c2 w2 w3 d2 d3 where
    "executeStages c w d c' w' ins c1 w1 c2 w2 w3 d2 d3"
    by blast
  then have e: "copyNodes (isMigration c1 w1) c1 w1 [] (copied c1 w1) = Inr (c2, w2, ins)"
      "nodeIdsMap c' = nodeIdsMap c2" "destSceneId c' = destSceneId c"
      "selection c' = selection c" "scenes w1 = scenes w"
      "sameCmd (c\<lparr>sourceIdsMap := sourceIdsMap c1\<rparr>) c1" "nodeIdsMap c1 = nodeIdsMap c"
      "sameServices w w1" "sceneNodeMaps w1 = sceneNodeMaps w"
      "scenes w3 = (scenes w)(destSceneId c \<mapsto> d3)"
      "sceneNodeMaps w3 = sceneNodeMaps w2"
      "reorderPass c' w3 (nodesIds d) = Inr w'"
      "sameCmd (c2\<lparr>hasNodeMap := hasNodeMap c'\<rparr>) c'"
      "hasNodeMap c' = (hasNodeMap c \<or> isMigration c1 w1)"
    unfolding executeStages_def by blast+
  let ?T = "map_of (nodeIdsMap c')"
  let ?dst = "destSceneId c"
  have dc1: "destSceneId c1 = ?dst" "display c1 = display c"
    using e(6) by (simp_all add: sameCmd_def)
  have s1: "scenes w1 (destSceneId c1) = Some d" using e(5) dc1 assms(2) by simp
  have cp1: "copied c1 w1 = sel_nodes (selection c)" "isMigration c1 w1"
    using copied_cong[OF e(6) e(8)] cp mig by simp_all
  have k4: "fst ` set (nodeIdsMap c) \<subseteq> node_id ` set (copied c w)" using assms(8) cp by simp
  from execute_table[OF assms(1,2,6) k4 assms(9)] have
    vals: "snd ` set (nodeIdsMap c') = set ins" by blast
  from copyNodes_frame[OF e(1) s1] cp1 have len: "length ins = length (sel_nodes (selection c))"
    by auto
  from copyNodes_nodeMap[OF e(1) s1] cp1 dc1 assms(5) e(2) have
    nm2: "\<forall>n\<in>set (sel_nodes (selection c)).
            map_of (sceneNodeMaps w2 ?dst) (Some (node_id n)) = Some (?T (node_id n))"
    by simp
  have dist2: "distinct (map fst (sceneNodeMaps w2 ?dst))"
    using copyNodes_nodeMap_distinct[OF e(1) s1] assms(11) e(9) dc1 by simp
  from reorderPass_Inr[OF e(12)] obtain s where
    s: "scenes w3 (sceneId (selection c')) = Some s" by auto
  have hn: "hasNodeMap c'" using e(14) cp1(2) by simp
  have nm': "sceneNodeMaps w' = sceneNodeMaps (nodeMapSteps c' w3 (nodesIds s))"
    using reorderPass_nodeMaps[OF e(12) s] hn by simp
  have dist': "distinct (map fst (sceneNodeMaps w' ?dst))"
    using nodeMapSteps_distinct[of w3 c' "nodesIds s"] dist2 e(3,11) nm' by simp
  show ?thesis
  proof (intro conjI ballI)
    show "length ins = length (sel_nodes (selection c))" by (rule len)
  next
    fix n assume n: "n \<in> set (sel_nodes (selection c))"
    then have n': "n \<in> set (copied c w)" using cp by simp
    from execute_copy[OF assms(1,2,6) k4 assms(9,10) n'] obtain k where
      k: "?T (node_id n) = Some k" "k \<in> set ins"
         "getNode w' ?dst (Some k) =
           Some ((newNode (isMigration c w) c' w n k)\<lparr>parentId :=
                  (if truthy (?T (propKey (parentId n)))
                   then ?T (propKey (parentId n)) else None)\<rparr>)"
      by blast
    have nokey: "\<forall>i\<in>set (nodesIds s). ?T i \<noteq> Some (node_id n)"
    proof
      fix i show "?T i \<noteq> Some (node_id n)"
      proof
        assume "?T i = Some (node_id n)"
        then have "node_id n \<in> snd ` set (nodeIdsMap c')" by (force dest: map_of_SomeD)
        with vals assms(7) n show False by auto
      qed
    qed
    have "map_of (sceneNodeMaps w' ?dst) (Some (node_id n))
            = map_of (sceneNodeMaps w3 ?dst) (Some (node_id n))"
      using nodeMapSteps_other_key[OF nokey, of w3] nm' e(3) by simp
    with nm2 n k(1) e(11) have "map_of (sceneNodeMaps w' ?dst) (Some (node_id n)) = Some (Some k)"
      by simp
    from filter_key_single[OF dist' this] have
      f: "filter (\<lambda>e. fst e = Some (node_id n)) (sceneNodeMaps w' ?dst)
            = [(Some (node_id n), Some k)]" .
    have dc': "display c' = display c"
      using e(13) copyNodes_frame[OF e(1) s1] dc1 by (auto simp: sameCmd_def)
    have p: "\<not> folder n \<longrightarrow> position ((newNode (isMigration c w) c' w n k)\<lparr>parentId :=
                  (if truthy (?T (propKey (parentId n)))
                   then ?T (propKey (parentId n)) else None)\<rparr>) = (0, 0)"
      using mig dc' assms(5) by (simp add: newNode_def)
    from k f p show "\<exists>k m. ?T (node_id n) = Some k \<and> k \<in> set ins
           \<and> filter (\<lambda>e. fst e = Some (node_id n)) (sceneNodeMaps w' ?dst)
                = [(Some (node_id n), Some k)]
           \<and> getNode w' ?dst (Some k) = Some m
           \<and> (\<not> folder n \<longrightarrow> position m = (0, 0))"
      by blast
  qed
qed

theorem migration_node_map_witness:
  "execute exMigrate exWorld = Inr exMigrated
   \<and> dualOutputMode exWorld \<and> \<not> hasNodeMap exMigrate \<and> display exMigrate = Some vertical
   \<and> length (snd (snd exMigrated)) = 3
   \<and> filter (\<lambda>e. fst e = Some ''i'') (sceneNodeMaps (fst (snd exMigrated)) ''B'')
        = [(Some ''i'', Some ''u+'')]
   \<and> (\<exists>m. getNode (fst (snd exMigrated)) ''B'' (Some ''u+'') = Some m \<and> position m = (0, 0))"
proof -
  have d: "scenes exWorld (destSceneId exMigrate) = Some exSceneB"
    and t: "nodeIdsMap exMigrate = []" and ds: "destSceneId exMigrate = ''B''"
    and m: "dualOutputMode exWorld" and h: "\<not> hasNodeMap exMigrate"
    and v: "display exMigrate = Some vertical"
    and sl: "sel_nodes (selection exMigrate)
              = [exItem ''i'' ''s1'' (Some ''f''), exFolder ''f'' None, exItem ''j'' ''s2'' (Some ''g'')]"
    and nm: "distinct (map fst (sceneNodeMaps exWorld (destSceneId exMigrate)))"
    by (simp_all add: exMigrate_def CopyNodesCommand_def exWorld_def views_hasNodeMap_def
        exSel_def)
  have i1: "distinct (snd (snd exMigrated))"
    and i2: "set (snd (snd exMigrated)) \<inter> node_id ` set (sel_nodes (selection exMigrate)) = {}"
    by (simp_all add: exMigrated_facts(4) sl exItem_def exFolder_def)
  have k: "fst ` set (nodeIdsMap exMigrate) \<subseteq> node_id ` set (sel_nodes (selection exMigrate))"
    and q: "distinct (map fst (nodeIdsMap exMigrate))"
    using t by simp_all
  have s: "distinct (map node_id (sel_nodes (selection exMigrate)))"
    by (simp add: sl exItem_def exFolder_def)
  have ni: "exItem ''i'' ''s1'' (Some ''f'') \<in> set (sel_nodes (selection exMigrate))"
    by (simp add: sl)
  note r = migration_node_map[OF exMigrated_facts(1) d m h v i1 i2 k q s nm]
  from r have l: "length (snd (snd exMigrated)) = 3" by (simp add: sl)
  from r ni have "\<exists>k m. map_of (nodeIdsMap (fst exMigrated)) (node_id (exItem ''i'' ''s1'' (Some ''f''))) = Some k
       \<and> filter (\<lambda>e. fst e = Some (node_id (exItem ''i'' ''s1'' (Some ''f''))))
            (sceneNodeMaps (fst (snd exMigrated)) (destSceneId exMigrate))
           = [(Some (node_id (exItem ''i'' ''s1'' (Some ''f''))), Some k)]
       \<and> getNode (fst (snd exMigrated)) (destSceneId exMigrate) (Some k) = Some m
       \<and> (\<not> folder (exItem ''i'' ''s1'' (Some ''f'')) \<longrightarrow> position m = (0, 0))"
    by blast
  then have "filter (\<lambda>e. fst e = Some ''i'') (sceneNodeMaps (fst (snd exMigrated)) ''B'')
        = [(Some ''i'', Some ''u+'')]
   \<and> (\<exists>m. getNode (fst (snd exMigrated)) ''B'' (Some ''u+'') = Some m \<and> position m = (0, 0))"
    by (auto simp: exMigrated_facts(2) ds exItem_def)
  with l m h v exMigrated_facts(1) show ?thesis by simp
qed

text \<open>
  Claim C4. For a command whose source scene has a node map, for every copied node \<open>nh\<close>
  that the source scene classifies as horizontal and whose vertical twin \<open>nv\<close> was copied
  too, the node map of the destination scene after execute() pairs the new id of \<open>nh\<close>
  with the new id of \<open>nv\<close>: both ids of the entry are ids created by this execute(). The
  ids execute() got from createFolder and addSource are pairwise distinct and differ from
  the id of \<open>nh\<close>, and every key the table held at the start is the id of a node copied
  in this run. For a new command the conditions on the ids follow from an injective
  supply that yields no id in use, by \<open>new_command_ids\<close>.
\<close>

theorem dual_output_node_map:
  assumes "execute c w = Inr (c', w', ins)" and "scenes w (destSceneId c) = Some d"
    and "scenes w (sceneId (selection c)) = Some s"
    and "hasNodeMap c"
    and "distinct ins"
    and "fst ` set (nodeIdsMap c) \<subseteq> node_id ` set (copied c w)"
    and "distinct (map fst (nodeIdsMap c))"
    and "nh \<in> set (copied c w)" and "nv \<in> set (copied c w)"
    and "getNodeDisplay w (node_id nh) (sceneId (selection c)) = horizontal"
    and "getVerticalNodeId w (node_id nh) (sceneId (selection c)) = Some (node_id nv)"
    and "node_id nh \<in> set (nodesIds s)" and "node_id nh \<notin> set ins"
  shows "\<exists>kh kv. map_of (nodeIdsMap c') (node_id nh) = Some kh
             \<and> map_of (nodeIdsMap c') (node_id nv) = Some kv
             \<and> kh \<in> set ins \<and> kv \<in> set ins
             \<and> map_of (sceneNodeMaps w' (destSceneId c)) (Some kh) = Some (Some kv)"
proof -
  from execute_before_reorder[OF assms(1,2)] obtain c1 w1 c2 w2 w3 d2 d3 where
    "executeStages c w d c' w' ins c1 w1 c2 w2 w3 d2 d3"
    by blast
  then have e: "copyNodes (isMigration c1 w1) c1 w1 [] (copied c1 w1) = Inr (c2, w2, ins)"
      "destSceneId c' = destSceneId c"
      "selection c' = selection c" "scenes w1 = scenes w"
      "sameCmd (c\<lparr>sourceIdsMap := sourceIdsMap c1\<rparr>) c1"
      "sameServices w w1" "sceneNodeMaps w1 = sceneNodeMaps w"
      "nodesIds d2 = rev ins @ nodesIds d"
      "scenes w3 = (scenes w)(destSceneId c \<mapsto> d3)" "nodesIds d3 = nodesIds d2"
      "sceneNodeMaps w3 = sceneNodeMaps w2" "sameServices w2 w3"
      "reorderPass c' w3 (nodesIds d) = Inr w'"
      "hasNodeMap c' = (hasNodeMap c \<or> isMigration c1 w1)"
    unfolding executeStages_def by blast+
  let ?T = "map_of (nodeIdsMap c')"
  let ?dst = "destSceneId c" and ?src = "sceneId (selection c)"
  let ?h = "node_id nh"
  have dc1: "destSceneId c1 = ?dst" "hasNodeMap c1 = hasNodeMap c"
    using e(5) by (simp_all add: sameCmd_def)
  have s1: "scenes w1 (destSceneId c1) = Some d" using e(4) dc1 assms(2) by simp
  have nomig: "\<not> isMigration c1 w1" using dc1 assms(4) by (simp add: isMigration_def)
  from copyNodes_nodeMap[OF e(1) s1] nomig have m2: "sceneNodeMaps w2 = sceneNodeMaps w1"
    by simp
  from copyNodes_frame[OF e(1) s1] have sv12: "sameServices w1 w2" by blast
  have sv: "sameServices w w3"
    using sameServices_trans[OF sameServices_trans[OF e(6) sv12] e(12)] .
  have m3: "sceneNodeMaps w3 = sceneNodeMaps w" using e(11) m2 e(7) by simp
  from execute_table[OF assms(1,2,5,6,7)] have
    vals: "snd ` set (nodeIdsMap c') = set ins"
    and inj: "\<forall>a b. ?T a = ?T b \<longrightarrow> ?T a \<noteq> None \<longrightarrow> a = b"
    and dom: "\<forall>n\<in>set (copied c w). ?T (node_id n) \<noteq> None"
    by blast+
  from dom assms(8) have "?T ?h \<noteq> None" by blast
  then obtain kh where kh: "?T ?h = Some kh" by blast
  from dom assms(9) have "?T (node_id nv) \<noteq> None" by blast
  then obtain kv where kv: "?T (node_id nv) = Some kv" by blast
  have kin: "kh \<in> set ins" "kv \<in> set ins"
    using kh kv vals by (force dest: map_of_SomeD)+
  from reorderPass_Inr[OF e(13)] obtain s3 where
    s3: "scenes w3 (sceneId (selection c')) = Some s3" by auto
  have hin: "?h \<in> set (nodesIds s3)"
  proof (cases "?src = ?dst")
    case False
    with s3 e(3,9) assms(3) have "s3 = s" by simp
    with assms(12) show ?thesis by simp
  next
    case True
    with s3 e(3,9) have "s3 = d3" by simp
    moreover from True assms(2,3) have "s = d" by simp
    ultimately show ?thesis using assms(12) e(8,10) by simp
  qed
  have gd: "getNodeDisplay w3 = getNodeDisplay w"
    using sv by (simp add: getNodeDisplay_def sameServices_def fun_eq_iff)
  have gv: "getVerticalNodeId w3 ?h (sceneId (selection c')) = Some (node_id nv)"
    using assms(11) m3 e(3) by (simp add: getVerticalNodeId_def)
  have a1: "getNodeDisplay w3 ?h (sceneId (selection c')) = horizontal"
    using assms(10) gd e(3) by simp
  have a2: "\<forall>i\<in>set (nodesIds s3). getNodeDisplay w3 i (sceneId (selection c')) = horizontal
           \<longrightarrow> ?T i = ?T ?h \<longrightarrow> i = ?h"
    using inj kh by auto
  have a3: "sceneId (selection c') \<noteq> destSceneId c' \<or> (\<forall>i\<in>set (nodesIds s3). ?T i \<noteq> Some ?h)"
  proof -
    have "\<forall>i\<in>set (nodesIds s3). ?T i \<noteq> Some ?h"
    proof
      fix i show "?T i \<noteq> Some ?h"
      proof
        assume "?T i = Some ?h"
        then have "?h \<in> snd ` set (nodeIdsMap c')" by (force dest: map_of_SomeD)
        with vals assms(13) show False by simp
      qed
    qed
    then show ?thesis by simp
  qed
  have hn: "hasNodeMap c'" using e(14) assms(4) by simp
  have "map_of (sceneNodeMaps (nodeMapSteps c' w3 (nodesIds s3)) (destSceneId c')) (?T ?h)
          = Some (?T (propKey (getVerticalNodeId w3 ?h (sceneId (selection c')))))"
    using nodeMapSteps_entry[OF a1 a2 a3] hin by simp
  then have "map_of (sceneNodeMaps w' ?dst) (Some kh) = Some (Some kv)"
    using reorderPass_nodeMaps[OF e(13) s3] hn gv kh kv e(2) by (simp add: propKey_def)
  with kh kv kin show ?thesis by blast
qed

lemma exDualDone_facts:
  "execute exDual exWorld = Inr (fst exDualDone, fst (snd exDualDone), snd (snd exDualDone))"
  "nodeIdsMap (fst exDualDone) = [(''h'', ''u''), (''v'', ''u+'')]"
  "snd (snd exDualDone) = [''u'', ''u+'']"
  by (simp_all add: exDualDone_def exDual_def model_defs example_defs)

theorem dual_output_node_map_witness:
  "execute exDual exWorld = Inr exDualDone \<and> hasNodeMap exDual
   \<and> getNodeDisplay exWorld ''h'' ''D'' = horizontal
   \<and> getVerticalNodeId exWorld ''h'' ''D'' = Some ''v''
   \<and> map_of (nodeIdsMap (fst exDualDone)) ''h'' = Some ''u''
   \<and> map_of (nodeIdsMap (fst exDualDone)) ''v'' = Some ''u+''
   \<and> map_of (sceneNodeMaps (fst (snd exDualDone)) ''B'') (Some ''u'') = Some (Some ''u+'')"
proof -
  have d: "scenes exWorld (destSceneId exDual) = Some exSceneB"
    and s: "scenes exWorld (sceneId (selection exDual)) = Some exSceneD"
    and h: "hasNodeMap exDual" and t: "nodeIdsMap exDual = []"
    and ds: "destSceneId exDual = ''B''" and sr: "sceneId (selection exDual) = ''D''"
    by (simp_all add: exDual_def CopyNodesCommand_def exWorld_def views_hasNodeMap_def)
  have cp: "copied exDual exWorld = [exItem ''h'' ''s1'' None, exItem ''v'' ''s1'' None]"
    by (simp add: copied_def isMigration_def getNodesFor_def exDual_def CopyNodesCommand_def
        views_hasNodeMap_def exWorld_def)
  have i1: "distinct (snd (snd exDualDone))"
    by (simp add: exDualDone_facts(3))
  have k: "fst ` set (nodeIdsMap exDual) \<subseteq> node_id ` set (copied exDual exWorld)"
    and q: "distinct (map fst (nodeIdsMap exDual))"
    using t by simp_all
  have nh: "exItem ''h'' ''s1'' None \<in> set (copied exDual exWorld)"
    and nv: "exItem ''v'' ''s1'' None \<in> set (copied exDual exWorld)"
    by (simp_all add: cp)
  have g1: "getNodeDisplay exWorld (node_id (exItem ''h'' ''s1'' None)) (sceneId (selection exDual))
              = horizontal"
    and g2: "getVerticalNodeId exWorld (node_id (exItem ''h'' ''s1'' None)) (sceneId (selection exDual))
              = Some (node_id (exItem ''v'' ''s1'' None))"
    and g3: "node_id (exItem ''h'' ''s1'' None) \<in> set (nodesIds exSceneD)"
    and g4: "node_id (exItem ''h'' ''s1'' None) \<notin> set (snd (snd exDualDone))"
    by (simp_all add: sr getNodeDisplay_def getVerticalNodeId_def exWorld_def exItem_def
        exSceneD_def exDualDone_facts(3))
  from dual_output_node_map[OF exDualDone_facts(1) d s h i1 k q nh nv g1 g2 g3 g4]
    exDualDone_facts(1) h g1 g2
  show ?thesis
    by (auto simp: exDualDone_facts(2) ds sr exItem_def)
qed

subsection \<open>The source table\<close>

lemma getSources_distinct: "distinct (getSources sel)"
  by (simp add: getSources_def)

lemma update_keys_new: "k \<notin> fst ` set al \<Longrightarrow> map fst (AList.update k v al) = map fst al @ [k]"
  by (induction al) auto

text \<open>
  The duplication loop over sources that the table does not hold yet, when no id of the
  supply is a source id of the loop.
\<close>

lemma duplicateAll_table:
  assumes "duplicateAll m w ss = Inr (m', w')" and "distinct ss"
    and "set ss \<inter> fst ` set m = {}"
    and "\<forall>j\<ge>uuidCount w. uuid w j \<notin> set ss"
  shows "map fst m' = map fst m @ ss
       \<and> (\<forall>s\<in>set ss. \<forall>src. sources w s = Some src \<longrightarrow> doNotDuplicate src
            \<longrightarrow> map_of m' s = Some s)
       \<and> (\<forall>k. k \<notin> set ss \<longrightarrow> map_of m' k = map_of m k)"
  using assms
proof (induction ss arbitrary: m w)
  case Nil
  then show ?case by simp
next
  case (Cons s ss)
  from Cons.prems(1) obtain dup w1 where
    d: "duplicate w s (map_of m s) = Inr (dup, w1)" and
    r: "duplicateAll (AList.update s (case dup of Some d \<Rightarrow> d | None \<Rightarrow> s) m) w1 ss = Inr (m', w')"
    by (auto split: sum.splits)
  let ?v = "case dup of Some d \<Rightarrow> d | None \<Rightarrow> s"
  let ?m1 = "AList.update s ?v m"
  have sm: "s \<notin> fst ` set m" using Cons.prems(3) by auto
  then have hint: "map_of m s = None" by (simp add: map_of_eq_None_iff)
  obtain src0 where src0: "sources w s = Some src0"
    using d by (auto simp: duplicate_def split: option.splits)
  have nd: "doNotDuplicate src0 \<Longrightarrow> dup = None"
    using d src0 by (simp add: duplicate_def)
  have w1: "\<forall>t\<in>set (s # ss). sources w1 t = sources w t"
  proof
    fix t assume t: "t \<in> set (s # ss)"
    show "sources w1 t = sources w t"
    proof (cases "doNotDuplicate src0")
      case True
      with d src0 show ?thesis by (simp add: duplicate_def)
    next
      case False
      from Cons.prems(4) t have "uuid w (uuidCount w) \<noteq> t" by auto
      with False d src0 hint show ?thesis
        by (auto simp: duplicate_def newId_def Let_def)
    qed
  qed
  note fr = duplicate_frame[OF d]
  have u1: "\<forall>j\<ge>uuidCount w1. uuid w1 j \<notin> set ss"
    using Cons.prems(4) fr(3,4) by (auto simp: sameServices_def)
  have k1: "map fst ?m1 = map fst m @ [s]" using sm by (rule update_keys_new)
  have d1: "distinct ss" and i1: "set ss \<inter> fst ` set ?m1 = {}"
    using Cons.prems(2,3) by (auto simp: dom_update)
  note ih = Cons.IH[OF r d1 i1 u1]
  have p1: "map fst m' = map fst m @ s # ss" using ih k1 by simp
  have p2: "\<forall>t\<in>set (s # ss). \<forall>src. sources w t = Some src \<longrightarrow> doNotDuplicate src
            \<longrightarrow> map_of m' t = Some t"
  proof (intro ballI allI impI)
    fix t src assume t: "t \<in> set (s # ss)" and s: "sources w t = Some src" "doNotDuplicate src"
    show "map_of m' t = Some t"
    proof (cases "t \<in> set ss")
      case True
      with ih w1 s show ?thesis by simp
    next
      case False
      with t have ts: "t = s" by simp
      with s src0 nd have "dup = None" by simp
      then have "map_of ?m1 s = Some s" by (simp add: update_conv')
      with ih False ts show ?thesis by simp
    qed
  qed
  have p3: "\<forall>k. k \<notin> set (s # ss) \<longrightarrow> map_of m' k = map_of m k"
    using ih by (simp add: update_conv')
  from p1 p2 p3 show ?case by blast
qed

lemma duplicatePass_table:
  assumes "duplicatePass c w = Inr (c1, w1)" and "duplicateSources c"
    and "\<forall>j\<ge>uuidCount w. uuid w j \<notin> set (getSources (selection c))"
  shows "\<exists>m. sourceIdsMap c1 = Some m \<and> map fst m = getSources (selection c)
           \<and> (\<forall>s\<in>set (getSources (selection c)). \<forall>src. sources w s = Some src
                 \<longrightarrow> doNotDuplicate src \<longrightarrow> map_of m s = Some s)"
proof -
  from assms(1,2) obtain m where
    m: "duplicateAll [] w (getSources (selection c)) = Inr (m, w1)" "sourceIdsMap c1 = Some m"
    by (auto simp: duplicatePass_def split: sum.splits)
  from duplicateAll_table[OF m(1) getSources_distinct _ assms(3)] m(2) show ?thesis by simp
qed

text \<open>
  Claim C7. When the sources are duplicated, the source table after execute() has exactly
  one entry per distinct source of the selection, and a source marked non-duplicable is
  mapped to itself: the copy of an item of such a source references the original source.
  No id of the supply is a source id of the selection; the ids execute() got from
  createFolder and addSource are pairwise distinct, the selection lists each node once,
  and every key the node-id table held at the start is the id of a node copied in this
  run. For a new command the condition on the created ids follows from an injective
  supply, by \<open>new_command_ids\<close>.
\<close>

theorem nonduplicable_source_reused:
  assumes "execute c w = Inr (c', w', ins)" and "scenes w (destSceneId c) = Some d"
    and "duplicateSources c"
    and "\<forall>j\<ge>uuidCount w. uuid w j \<notin> set (getSources (selection c))"
    and "distinct ins"
    and "fst ` set (nodeIdsMap c) \<subseteq> node_id ` set (copied c w)"
    and "distinct (map fst (nodeIdsMap c))"
    and "distinct (map node_id (sel_nodes (selection c)))"
    and "n \<in> set (copied c w)" and "\<not> folder n"
    and "sources w (sourceId n) = Some src" and "doNotDuplicate src"
  shows "\<exists>m k x. sourceIdsMap c' = Some m \<and> map fst m = getSources (selection c)
           \<and> distinct (map fst m) \<and> map_of m (sourceId n) = Some (sourceId n)
           \<and> map_of (nodeIdsMap c') (node_id n) = Some k
           \<and> getNode w' (destSceneId c) (Some k) = Some x \<and> sourceId x = sourceId n"
proof -
  from execute_before_reorder[OF assms(1,2)] obtain c1 w1 c2 w2 w3 d2 d3 where
    "executeStages c w d c' w' ins c1 w1 c2 w2 w3 d2 d3"
    by blast
  then have e: "duplicatePass c w = Inr (c1, w1)"
      "copyNodes (isMigration c1 w1) c1 w1 [] (copied c1 w1) = Inr (c2, w2, ins)"
      "scenes w1 = scenes w" "sameCmd (c\<lparr>sourceIdsMap := sourceIdsMap c1\<rparr>) c1"
      "sameCmd (c2\<lparr>hasNodeMap := hasNodeMap c'\<rparr>) c'"
    unfolding executeStages_def by blast+
  from duplicatePass_table[OF e(1) assms(3,4)] obtain m where
    m: "sourceIdsMap c1 = Some m" "map fst m = getSources (selection c)"
       "\<forall>s\<in>set (getSources (selection c)). \<forall>src. sources w s = Some src
                 \<longrightarrow> doNotDuplicate src \<longrightarrow> map_of m s = Some s"
    by blast
  have dc1: "destSceneId c1 = destSceneId c" using e(4) by (simp add: sameCmd_def)
  have s1: "scenes w1 (destSceneId c1) = Some d" using e(3) dc1 assms(2) by simp
  from copyNodes_frame[OF e(2) s1] have "sameCmd c1 c2" by blast
  with e(5) m(1) have m': "sourceIdsMap c' = Some m" by (simp add: sameCmd_def)
  have nsel: "n \<in> set (sel_nodes (selection c))" using assms(9) copied_subset by auto
  with assms(10) have "sourceId n \<in> set (getSources (selection c))"
    by (auto simp: getSources_def)
  with m(3) assms(11,12) have ms: "map_of m (sourceId n) = Some (sourceId n)" by blast
  from execute_copy[OF assms(1,2,5,6,7,8,9)] obtain k where
    k: "map_of (nodeIdsMap c') (node_id n) = Some k"
       "getNode w' (destSceneId c) (Some k) =
         Some ((newNode (isMigration c w) c' w n k)\<lparr>parentId :=
                 (if truthy (map_of (nodeIdsMap c') (propKey (parentId n)))
                  then map_of (nodeIdsMap c') (propKey (parentId n)) else None)\<rparr>)"
    by blast
  have "sourceId ((newNode (isMigration c w) c' w n k)\<lparr>parentId :=
                 (if truthy (map_of (nodeIdsMap c') (propKey (parentId n)))
                  then map_of (nodeIdsMap c') (propKey (parentId n)) else None)\<rparr>) = sourceId n"
    using assms(10) m' ms by (simp add: newNode_def resolveSource_def)
  with k m' m(2) ms getSources_distinct[of "selection c"] show ?thesis
    by (intro exI[of _ m] exI[of _ k]) simp
qed

theorem nonduplicable_source_reused_witness:
  "execute exMigrate exWorld = Inr exMigrated \<and> duplicateSources exMigrate
   \<and> sources exWorld ''s2'' = Some \<lparr>doNotDuplicate = True\<rparr>
   \<and> getSources (selection exMigrate) = [''s1'', ''s2'']
   \<and> (\<exists>m x. sourceIdsMap (fst exMigrated) = Some m \<and> map fst m = [''s1'', ''s2'']
          \<and> map_of m ''s2'' = Some ''s2''
          \<and> getNode (fst (snd exMigrated)) ''B'' (Some ''u+++'') = Some x \<and> sourceId x = ''s2'')"
proof -
  have d: "scenes exWorld (destSceneId exMigrate) = Some exSceneB"
    and t: "nodeIdsMap exMigrate = []" and ds: "destSceneId exMigrate = ''B''"
    and du: "duplicateSources exMigrate"
    and so: "sources exWorld ''s2'' = Some \<lparr>doNotDuplicate = True\<rparr>"
    and gs: "getSources (selection exMigrate) = [''s1'', ''s2'']"
    by (simp_all add: exMigrate_def CopyNodesCommand_def exWorld_def getSources_def exSel_def
        exItem_def exFolder_def)
  have fr: "\<forall>j\<ge>uuidCount exWorld. uuid exWorld j \<notin> set (getSources (selection exMigrate))"
    by (simp add: gs exWorld_def)
  have i1: "distinct (snd (snd exMigrated))"
    by (simp add: exMigrated_facts(4))
  have k: "fst ` set (nodeIdsMap exMigrate) \<subseteq> node_id ` set (copied exMigrate exWorld)"
    and q: "distinct (map fst (nodeIdsMap exMigrate))"
    using t by simp_all
  have s: "distinct (map node_id (sel_nodes (selection exMigrate)))"
    by (simp add: exMigrate_def CopyNodesCommand_def exSel_def exItem_def exFolder_def)
  have nj: "exItem ''j'' ''s2'' (Some ''g'') \<in> set (copied exMigrate exWorld)"
    by (simp add: copied_def isMigration_def getNodes_def exMigrate_def CopyNodesCommand_def
        views_hasNodeMap_def exWorld_def exSel_def)
  have nf: "\<not> folder (exItem ''j'' ''s2'' (Some ''g''))"
    and sj: "sources exWorld (sourceId (exItem ''j'' ''s2'' (Some ''g''))) = Some \<lparr>doNotDuplicate = True\<rparr>"
    and dn: "doNotDuplicate \<lparr>doNotDuplicate = True\<rparr>"
    by (simp_all add: exItem_def exWorld_def)
  from nonduplicable_source_reused[OF exMigrated_facts(1) d du fr i1 k q s nj nf sj dn]
    exMigrated_facts(1) du so gs
  show ?thesis
    by (auto simp: exMigrated_facts(2) ds exItem_def)
qed

section \<open>rollback()\<close>

text \<open>
  Undoing a run whose table has no key left over from an earlier run. execute() followed
  by rollback() restores the scenes: the destination scene has the nodes and the order it
  had before execute(), and no other scene has changed. The ids execute() got from
  createFolder and addSource are ids the destination scene did not use, and every key the table held at the start is the id of a node copied in
  this run (the table of a new command is empty). For a new command the condition on the
  ids follows from an injective supply that yields no id in use, by \<open>new_command_ids\<close>.
\<close>

theorem rollback_restores_scene:
  assumes "execute c w = Inr (c', w', ins)" and "scenes w (destSceneId c) = Some d"
    and "set ins \<inter> (dom (nodes d) \<union> set (nodesIds d)) = {}"
    and "fst ` set (nodeIdsMap c) \<subseteq> node_id ` set (copied c w)"
    and "distinct (map fst (nodeIdsMap c))"
  shows "\<exists>w''. rollback c' w' = Inr w'' \<and> scenes w'' = scenes w"
proof -
  from execute_before_reorder[OF assms(1,2)] obtain c1 w1 c2 w2 w3 d2 d3 where
    "executeStages c w d c' w' ins c1 w1 c2 w2 w3 d2 d3"
    by blast
  then have e: "copyNodes (isMigration c1 w1) c1 w1 [] (copied c1 w1) = Inr (c2, w2, ins)"
      "nodeIdsMap c' = nodeIdsMap c2" "destSceneId c' = destSceneId c"
      "selection c' = selection c" "scenes w1 = scenes w"
      "sameCmd (c\<lparr>sourceIdsMap := sourceIdsMap c1\<rparr>) c1" "nodeIdsMap c1 = nodeIdsMap c"
      "sameServices w w1"
      "scenes w2 = (scenes w)(destSceneId c \<mapsto> d2)" "nodesIds d2 = rev ins @ nodesIds d"
      "\<forall>j. j \<notin> set ins \<longrightarrow> nodes d2 j = nodes d j"
      "relinkNodes c' w2 (getNodes (selection c)) = Inr w3"
      "scenes w3 = (scenes w)(destSceneId c \<mapsto> d3)" "nodesIds d3 = nodesIds d2"
      "reorderPass c' w3 (nodesIds d) = Inr w'"
    by (simp_all add: executeStages_def)
  let ?T = "nodeIdsMap c'"
  have dc1: "destSceneId c1 = destSceneId c" using e(6) by (simp add: sameCmd_def)
  have s1: "scenes w1 (destSceneId c1) = Some d" using e(5) dc1 assms(2) by simp
  have cp: "copied c1 w1 = copied c w" using copied_cong[OF e(6) e(8)] by simp
  have vals: "snd ` set ?T = set ins"
    using copyNodes_values[OF e(1) s1] assms(4,5) e(2,7) cp by simp
  have s2: "scenes w2 (destSceneId c1) = Some d2" using e(9) dc1 by simp
  have own2: "\<forall>i\<in>set ins. \<exists>m. nodes d2 i = Some m \<and> node_id m = i"
  proof
    fix i assume "i \<in> set ins"
    with copyNodes_nodes[OF e(1) s1 _ s2] obtain n where
      "nodes d2 i = Some (newNode (isMigration c1 w1) c1 w1 n i)" by auto
    then show "\<exists>m. nodes d2 i = Some m \<and> node_id m = i" by (simp add: newNode_def)
  qed
  have s2': "scenes w2 (destSceneId c') = Some d2" using e(9) e(3) by simp
  from relinkNodes_frame[OF e(12)[folded e(4)] s2'] e(13) e(3) have
    r: "\<forall>j. (nodes d3 j = None) = (nodes d2 j = None)"
       "\<forall>j x. nodes d2 j = Some x \<longrightarrow> (\<exists>p. nodes d3 j = Some (x\<lparr>parentId := p\<rparr>))"
       "\<forall>j. nodes d3 j \<noteq> nodes d2 j \<longrightarrow>
                (\<exists>n\<in>set (getNodes (selection c')). \<exists>k m. map_of ?T (node_id n) = Some k
                        \<and> nodes d2 k = Some m \<and> j = node_id m)"
    by (auto dest: map_upd_eqD1)
  have out3: "\<forall>j. j \<notin> set ins \<longrightarrow> nodes d3 j = nodes d j"
  proof (intro allI impI, rule ccontr)
    fix j assume j: "j \<notin> set ins" and neq: "nodes d3 j \<noteq> nodes d j"
    with e(11) have "nodes d3 j \<noteq> nodes d2 j" by simp
    from r(3)[rule_format, OF this] obtain n :: node and k m where
      km: "map_of ?T (node_id n) = Some k" "nodes d2 k = Some m" "j = node_id m" by auto
    from km(1) have "k \<in> snd ` set ?T" by (force dest: map_of_SomeD)
    with vals own2 km(2) have "node_id m = k" "k \<in> set ins" by auto
    with km(3) j show False by simp
  qed
  have own3: "\<forall>i\<in>set ins. \<forall>m. nodes d3 i = Some m \<longrightarrow> node_id m = i"
  proof (intro ballI allI impI)
    fix i m assume i: "i \<in> set ins" and m: "nodes d3 i = Some m"
    from own2 i obtain x where x: "nodes d2 i = Some x" "node_id x = i" by blast
    with r(2) m obtain p where "m = x\<lparr>parentId := p\<rparr>" by fastforce
    with x show "node_id m = i" by simp
  qed
  have in3: "\<forall>i\<in>set ins. nodes d3 i \<noteq> None"
    using own2 r(1) by (metis option.distinct(1))
  from reorderPass_Inr[OF e(15)] e(4) obtain s where
    s: "scenes w3 (sceneId (selection c')) = Some s" by auto
  let ?pre = "compactIds (map (map_of ?T) (nodesIds s))"
  let ?d4 = "d3\<lparr>nodesIds := ?pre @ nodesIds d\<rparr>"
  have s3: "scenes w3 (destSceneId c') = Some d3" using e(13) e(3) by simp
  have sc': "scenes w' = (scenes w)(destSceneId c \<mapsto> ?d4)"
    using reorderPass_scenes[OF e(15) s s3] e(13) e(3) by simp
  have pre: "set ?pre \<subseteq> set ins"
  proof
    fix v assume "v \<in> set ?pre"
    then have "Some v \<in> map_of ?T ` set (nodesIds s)" by (simp add: set_compactIds)
    then obtain k where "map_of ?T k = Some v" by auto
    then have "v \<in> snd ` set ?T" by (force dest: map_of_SomeD)
    with vals show "v \<in> set ins" by simp
  qed
  have sd: "scenes w' (destSceneId c') = Some ?d4" using sc' e(3) by simp
  have own4: "\<forall>k\<in>set (map snd ?T). \<forall>m. nodes ?d4 k = Some m \<longrightarrow> node_id m = k"
    using own3 vals by simp
  let ?w1 = "removeNodes w' (destSceneId c') (map snd ?T)"
  let ?d5 = "?d4\<lparr>nodes := (\<lambda>k. if k \<in> set (map snd ?T) then None else nodes ?d4 k),
                 nodesIds := filter (\<lambda>k. \<not> (k \<in> set (map snd ?T) \<and> nodes ?d4 k \<noteq> None))
                               (nodesIds ?d4)\<rparr>"
  have rm: "scenes ?w1 = (scenes w')(destSceneId c' \<mapsto> ?d5)"
    using removeNodes_scenes[OF sd own4] .
  have n5: "nodes ?d5 = nodes d"
  proof
    fix k show "nodes ?d5 k = nodes d k"
    proof (cases "k \<in> set ins")
      case True
      with assms(3) have "nodes d k = None" by auto
      with True vals show ?thesis by simp
    next
      case False
      with out3 vals show ?thesis by simp
    qed
  qed
  have f1: "filter (\<lambda>k. \<not> (k \<in> set ins \<and> nodes d3 k \<noteq> None)) ?pre = []"
    using pre in3 by (auto simp: filter_empty_conv)
  have f2: "filter (\<lambda>k. \<not> (k \<in> set ins \<and> nodes d3 k \<noteq> None)) (nodesIds d) = nodesIds d"
    using assms(3) by (auto simp: filter_id_conv)
  have o5: "nodesIds ?d5 = nodesIds d" using f1 f2 vals by simp
  have d5: "?d5 = d" using n5 o5 by (simp add: scene_eq_iff)
  from rm have "scenes ?w1 = (scenes w')(destSceneId c' \<mapsto> d)" by (simp only: d5)
  then have fin: "scenes ?w1 = scenes w"
    using sc' e(3) assms(2) by (simp add: fun_upd_idem)
  have rb: "rollback c' w' = Inr (if views_hasNodeMap ?w1 (destSceneId c')
                                 then removeNodeMap ?w1 (destSceneId c') else ?w1)"
    using sd by (simp add: rollback_def Let_def)
  show ?thesis
    using rb fin by (auto simp: removeNodeMap_def)
qed

theorem rollback_restores_scene_witness:
  "execute exMigrate exWorld = Inr exMigrated
   \<and> scenes exWorld (destSceneId exMigrate) = Some exSceneB
   \<and> set (snd (snd exMigrated)) \<inter> (dom (nodes exSceneB) \<union> set (nodesIds exSceneB)) = {}
   \<and> nodeIdsMap exMigrate = []
   \<and> (\<exists>w''. rollback (fst exMigrated) (fst (snd exMigrated)) = Inr w''
          \<and> scenes w'' = scenes exWorld)"
proof -
  have d: "scenes exWorld (destSceneId exMigrate) = Some exSceneB"
    and t: "nodeIdsMap exMigrate = []"
    by (simp_all add: exMigrate_def CopyNodesCommand_def exWorld_def)
  have f: "set (snd (snd exMigrated)) \<inter> (dom (nodes exSceneB) \<union> set (nodesIds exSceneB)) = {}"
    by (simp add: exMigrated_facts(4) exSceneB_def)
  have k: "fst ` set (nodeIdsMap exMigrate) \<subseteq> node_id ` set (copied exMigrate exWorld)"
    and q: "distinct (map fst (nodeIdsMap exMigrate))"
    using t by simp_all
  from rollback_restores_scene[OF exMigrated_facts(1) d f k q] d t f exMigrated_facts(1)
  show ?thesis by simp
qed


text \<open>
  Claim C6, as amended. rollback() leaves the destination scene without a node map: a node
  map the destination scene has when rollback() runs is removed entirely, also one that
  was there before execute() and to which the command added no entry. The node maps of
  all other scenes stay as they were.
\<close>

theorem rollback_removes_node_map:
  assumes "scenes w (destSceneId c) = Some sc"
  shows "\<exists>w'. rollback c w = Inr w' \<and> sceneNodeMaps w' (destSceneId c) = []
           \<and> (\<forall>s. s \<noteq> destSceneId c \<longrightarrow> sceneNodeMaps w' s = sceneNodeMaps w s)"
  using assms by (simp add: rollback_def Let_def removeNodeMap_def views_hasNodeMap_def)

theorem rollback_removes_node_map_witness:
  "\<exists>sc w'. scenes (fst (snd exPasted)) (destSceneId (fst exPasted)) = Some sc
     \<and> rollback (fst exPasted) (fst (snd exPasted)) = Inr w'
     \<and> sceneNodeMaps w' ''D'' = [] \<and> sceneNodeMaps w' ''A'' = sceneNodeMaps exWorldSingle ''A''"
proof -
  have d: "destSceneId (fst exPasted) = ''D''"
    by (simp add: exPasted_def exPaste_def model_defs example_defs)
  have a: "sceneNodeMaps (fst (snd exPasted)) ''A'' = sceneNodeMaps exWorldSingle ''A''"
    by (simp add: exPasted_def exPaste_def model_defs example_defs)
  obtain sc where h: "scenes (fst (snd exPasted)) (destSceneId (fst exPasted)) = Some sc"
    by (simp add: exPasted_def exPaste_def model_defs example_defs)
  from rollback_removes_node_map[OF h] obtain w' where
    "rollback (fst exPasted) (fst (snd exPasted)) = Inr w'"
    "sceneNodeMaps w' (destSceneId (fst exPasted)) = []"
    "\<forall>s. s \<noteq> destSceneId (fst exPasted) \<longrightarrow> sceneNodeMaps w' s = sceneNodeMaps (fst (snd exPasted)) s"
    by blast
  with h d a show ?thesis by simp
qed

text \<open>
  Claim C6 as stated fails. Scene \<open>D\<close> has a node map before the paste, the paste adds no
  entry to it, and rollback() removes it.
\<close>

theorem rollback_keeps_node_map_counterexample:
  "sceneNodeMaps exWorldSingle ''D'' = [(Some ''h'', Some ''v''), (Some ''k'', Some ''kv'')]
   \<and> execute exPaste exWorldSingle = Inr exPasted
   \<and> sceneNodeMaps (fst (snd exPasted)) ''D'' = sceneNodeMaps exWorldSingle ''D''
   \<and> rollback (fst exPasted) (fst (snd exPasted)) = Inr exPasteUndone
   \<and> sceneNodeMaps exPasteUndone ''D'' = []"
  by (simp add: exPasteUndone_def exPasted_def exPaste_def model_defs example_defs)

text \<open>
  Claim C10. rollback() raises no error over the ids of the table: an id the destination
  scene does not resolve is skipped, every other recorded node is removed from the scene
  and from its order, and no other node is touched. With an empty table (execute() never
  ran) the scene stays as it is.
\<close>

theorem rollback_skips_missing_nodes:
  assumes "scenes w (destSceneId c) = Some sc" and "wfScene sc"
  shows "\<exists>w' sc'. rollback c w = Inr w' \<and> scenes w' (destSceneId c) = Some sc'
           \<and> nodes sc' = (\<lambda>k. if k \<in> snd ` set (nodeIdsMap c) then None else nodes sc k)
           \<and> nodesIds sc' =
               filter (\<lambda>k. \<not> (k \<in> snd ` set (nodeIdsMap c) \<and> nodes sc k \<noteq> None)) (nodesIds sc)
           \<and> (nodeIdsMap c = [] \<longrightarrow> sc' = sc)"
proof -
  let ?w1 = "removeNodes w (destSceneId c) (map snd (nodeIdsMap c))"
  let ?sc' = "sc\<lparr>nodes := (\<lambda>k. if k \<in> set (map snd (nodeIdsMap c)) then None else nodes sc k),
                 nodesIds := filter (\<lambda>k. \<not> (k \<in> set (map snd (nodeIdsMap c)) \<and> nodes sc k \<noteq> None))
                               (nodesIds sc)\<rparr>"
  have s: "scenes ?w1 (destSceneId c) = Some ?sc'"
    using removeNodes_scene[OF assms] .
  have r: "rollback c w = Inr (if views_hasNodeMap ?w1 (destSceneId c)
                               then removeNodeMap ?w1 (destSceneId c) else ?w1)"
    using assms(1) by (simp add: rollback_def Let_def)
  have e: "nodeIdsMap c = [] \<longrightarrow> ?sc' = sc" by simp
  show ?thesis
    apply (rule exI[of _ "if views_hasNodeMap ?w1 (destSceneId c)
                          then removeNodeMap ?w1 (destSceneId c) else ?w1"])
    apply (rule exI[of _ ?sc'])
    using s r e by (simp add: removeNodeMap_def)
qed

theorem rollback_skips_missing_nodes_witness:
  "wfScene exSceneB \<and> scenes exWorld (destSceneId exStale) = Some exSceneB
   \<and> (\<exists>w' sc'. rollback exStale exWorld = Inr w' \<and> scenes w' ''B'' = Some sc'
         \<and> nodes sc' ''x'' = None \<and> nodesIds sc' = [])"
proof -
  have h: "scenes exWorld (destSceneId exStale) = Some exSceneB"
    by (simp add: exStale_def CopyNodesCommand_def exWorld_def)
  have wf: "wfScene exSceneB"
    by (simp add: wfScene_def exSceneB_def exItem_def)
  from rollback_skips_missing_nodes[OF h wf] obtain w' sc' where
    "rollback exStale exWorld = Inr w'" "scenes w' (destSceneId exStale) = Some sc'"
    "nodes sc' = (\<lambda>k. if k \<in> snd ` set (nodeIdsMap exStale) then None else nodes exSceneB k)"
    "nodesIds sc' = filter (\<lambda>k. \<not> (k \<in> snd ` set (nodeIdsMap exStale) \<and> nodes exSceneB k \<noteq> None))
                      (nodesIds exSceneB)"
    by blast
  with h wf show ?thesis
    by (simp add: exStale_def CopyNodesCommand_def exSceneB_def exItem_def)
qed

section \<open>Defects\<close>

text \<open>
  Claim C2 does not hold of the code. The copy of \<open>h\<close> and \<open>v\<close> into scene \<open>B\<close> is
  undone, which leaves \<open>B\<close> with the order it had; dual-output mode is switched off and
  the command is executed again. This run copies \<open>h\<close> alone, but the table still
  translates \<open>v\<close>, and the reordering pass maps the whole order of the source scene
  through the table: the order written to \<open>B\<close> names \<open>u+\<close>, a node the scene does not
  hold. rollback() removes the copy of \<open>h\<close>, finds no node \<open>u+\<close>, and leaves the id in
  the order of \<open>B\<close>.
\<close>

theorem rollback_leaves_stale_id:
  "map_option getNodesIds (scenes exDualUndone ''B'') = Some [''x'']
   \<and> execute (fst exDualDone) (exDualUndone\<lparr>dualOutputMode := False\<rparr>) = Inr exDualRedone
   \<and> nodeIdsMap (fst exDualRedone) = [(''h'', ''u''), (''v'', ''u+'')]
   \<and> snd (snd exDualRedone) = [''u'']
   \<and> map_option getNodesIds (scenes (fst (snd exDualRedone)) ''B'') = Some [''u'', ''u+'', ''x'']
   \<and> rollback (fst exDualRedone) (fst (snd exDualRedone)) = Inr exDualReundone
   \<and> map_option getNodesIds (scenes exDualReundone ''B'') = Some [''u+'', ''x'']
   \<and> getNode exDualReundone ''B'' (Some ''u+'') = None"
  by (simp add: exDualUndone_def exDualRedone_def exDualReundone_def exDualDone_def exDual_def
      model_defs example_defs)

text \<open>
  Claim C3 does not hold of the code. execute(), rollback(), execute() on the example
  migration: dual-output mode is on, the source scene \<open>A\<close> has no node map (at
  construction and at the second run) and the forced display is vertical. The first run
  registers an entry from each original to its copy and puts the copies of the items at
  (0, 0). It also sets the field \<^verbatim>\<open>hasNodeMap\<close> (line 135), which rollback() does not
  reset, so the second run takes the other loop: no entry links an original to its copy,
  and the copies of the items \<open>i\<close> and \<open>j\<close> keep the position (3, 4) of the originals.
\<close>

theorem redo_does_not_migrate:
  "dualOutputMode exMigrateUndone
   \<and> sceneNodeMaps exWorld ''A'' = [] \<and> sceneNodeMaps exMigrateUndone ''A'' = []
   \<and> display (fst exMigrated) = Some vertical
   \<and> migrationOf (execute exMigrate exWorld)
       = Some ([(Some ''i'', Some ''u+''), (Some ''f'', Some ''u++''), (Some ''j'', Some ''u+++''),
                (None, None), (Some ''u+++'', None), (Some ''u++'', None), (Some ''u+'', None)],
               [Some (0, 0), Some (0, 0), Some (0, 0)])
   \<and> migrationOf (execute (fst exMigrated) exMigrateUndone)
       = Some ([(None, None), (Some ''u+++'', None), (Some ''u++'', None), (Some ''u+'', None)],
               [Some (3, 4), Some (0, 0), Some (3, 4)])"
  by (simp add: migrationOf_def exMigrateUndone_def exMigrated_def exMigrate_def
      model_defs example_defs)

text \<open>
  Claim C8 does not hold of the code. With dual-output mode off the creation pass copies
  the nodes of the active display, here the folder \<open>p\<close> and the item \<open>h\<close>; the relinking
  pass visits every node of the selection. For the vertical item \<open>v\<close>, which was not
  copied while its parent \<open>p\<close> was, the copy of the parent resolves and the copy of the
  node does not: line 183 calls \<^verbatim>\<open>setParent\<close> on \<^verbatim>\<open>undefined\<close> and execute() raises.
\<close>

theorem relink_raises_for_uncopied_node:
  "map node_id (getNodes (selection exNested)) = [''p'', ''h'', ''v'']
   \<and> map node_id (copied exNested exWorldNested) = [''p'', ''h'']
   \<and> createPass exNested exWorldNested = Inr exNestedCreated
   \<and> nodeIdsMap (fst exNestedCreated) = [(''p'', ''u''), (''h'', ''u+'')]
   \<and> relinkNodes (fst exNestedCreated) (fst (snd exNestedCreated))
         (getNodes (selection exNested)) = Inl TypeError
   \<and> execute exNested exWorldNested = Inl TypeError"
  by (simp add: exNestedCreated_def exNested_def exWorldNested_def exSceneE_def copied_def
      model_defs example_defs)

text \<open>
  Claim C5 does not hold of the code. Copying the horizontal item \<open>k\<close> of scene \<open>D\<close>
  without its twin: the reordering pass registers an entry for every horizontal node of
  the source scene, whether or not the table translates it or its twin. The destination
  scene, which had no node map, ends with an entry that links an undefined id to an
  undefined id (for \<open>h\<close>, which was not copied) and one that links the copy of \<open>k\<close> to
  an undefined id.
\<close>

theorem reorder_registers_undefined_ids:
  "execute exDualK exWorld = Inr exDualKDone
   \<and> sceneNodeMaps exWorld ''B'' = []
   \<and> nodeIdsMap (fst exDualKDone) = [(''k'', ''u'')]
   \<and> sceneNodeMaps (fst (snd exDualKDone)) ''B'' = [(None, None), (Some ''u'', None)]"
  by (simp add: exDualKDone_def exDualK_def model_defs example_defs)

text \<open>
  Claim C9 does not hold of the code for the sources. execute(), rollback(), execute()
  on the example migration: the second run has the node-id table of the first and creates
  the same node ids; but the source table is reset at line 67 before it is read at line
  70, so the duplicate of \<open>s1\<close> is requested without an id hint and gets a new id.
\<close>

theorem redo_sources_without_hint:
  "tablesOf (execute exMigrate exWorld)
     = Some ([(''i'', ''u+''), (''f'', ''u++''), (''j'', ''u+++'')],
             Some [(''s1'', ''u''), (''s2'', ''s2'')], [''u+'', ''u++'', ''u+++''])
   \<and> tablesOf (execute (fst exMigrated) exMigrateUndone)
     = Some ([(''i'', ''u+''), (''f'', ''u++''), (''j'', ''u+++'')],
             Some [(''s1'', ''u++++''), (''s2'', ''s2'')], [''u+'', ''u++'', ''u+++''])"
  by (simp add: tablesOf_def exMigrateUndone_def exMigrated_def exMigrate_def
      model_defs example_defs)

end
